theory Spec2Isabelle
  imports Main
begin

section \<open>Raw memory, objects and exceptions\<close>

text \<open>
  The embedding of \<^verbatim>\<open>advanced-vector/vector.h\<close>. The container works on raw
  storage obtained from \<^verbatim>\<open>operator new\<close>, constructs and destroys objects in
  it by hand, and is handed references to objects that may live in its own
  storage. The model therefore keeps an explicit store:

  \<^item> a block of storage is a list of slots; a slot is raw memory or holds a live
    object;
  \<^item> a pointer \<^verbatim>\<open>T*\<close> is a block address (\<open>None\<close> is \<^verbatim>\<open>nullptr\<close>) and an
    element offset, which pointer arithmetic may move outside the block;
  \<^item> the allocator hands out a fresh address for every block, so that a pointer
    into released storage is never taken for one into a later block;
  \<^item> \<^verbatim>\<open>size_t\<close> counts are natural numbers, and the byte count
    \<^verbatim>\<open>n * sizeof(T)\<close> of an allocation is taken to be exact. In the source it is
    computed in 64 bits; \<open>fits T n\<close> below says that it does not wrap around.
    The counts the vector computes itself are at most twice the length of a
    vector that is held in memory; a count chosen by the caller (\<^verbatim>\<open>Reserve\<close>,
    \<^verbatim>\<open>Resize\<close>) is within the model only when it fits, and every statement about
    such a count assumes so;
  \<^item> the element type \<^verbatim>\<open>T\<close> is described by the two type traits the source
    queries, by \<^verbatim>\<open>sizeof(T)\<close>, by what a moved-from object holds, and by a
    schedule that says which invocation of which operation throws;
  \<^item> the world counts live objects and the invocations of each operation of
    \<^verbatim>\<open>T\<close>, the way an instrumented test element does.
\<close>

type_synonym addr = nat

datatype 'a slot = Raw | Obj 'a

type_synonym ptr = "addr option \<times> int"

definition ptr_add :: "ptr \<Rightarrow> int \<Rightarrow> ptr" where
  "ptr_add p n = (fst p, snd p + n)"

datatype op_kind =
  OperatorNew | ValueCtor | ArgsCtor | CopyCtor | MoveCtor | CopyAssign | MoveAssign

record 'a elem_type =
  nothrow_move_constructible :: bool
  copy_constructible :: bool
  moved_from :: "'a \<Rightarrow> 'a"
  value_initialized :: 'a
  sizeof :: nat
  throws :: "op_kind \<Rightarrow> nat \<Rightarrow> bool"

record RawMemory =
  buffer_m :: "addr option"
  capacity_m :: nat

record Vector =
  data_m :: RawMemory
  size_m :: nat

record 'a world =
  heap :: "addr \<Rightarrow> 'a slot list option"
  next_addr :: addr
  vectors :: "nat \<Rightarrow> Vector"
  live :: int
  calls :: "op_kind \<Rightarrow> nat"

text \<open>
  A call returns normally, leaves by an exception, stops at a failed
  \<^verbatim>\<open>assert\<close>, or runs into behaviour the language leaves undefined (an access
  to storage that holds no object, an invalid range, a double release): the
  source performs no check there.
\<close>

datatype ('r, 'w) outcome = Normal 'r 'w | Throws 'w | AssertFail | Undefined

definition ret :: "'r \<Rightarrow> 'w \<Rightarrow> ('r, 'w) outcome" where
  "ret x w = Normal x w"

definition bnd ::
  "('w \<Rightarrow> ('a, 'w) outcome) \<Rightarrow> ('a \<Rightarrow> 'w \<Rightarrow> ('b, 'w) outcome) \<Rightarrow> 'w \<Rightarrow> ('b, 'w) outcome" where
  "bnd m f w =
     (case m w of
        Normal x w' \<Rightarrow> f x w'
      | Throws w' \<Rightarrow> Throws w'
      | AssertFail \<Rightarrow> AssertFail
      | Undefined \<Rightarrow> Undefined)"

text \<open>
  \<^verbatim>\<open>try { m } catch (...) { cleanup; throw; }\<close>, and the unwinding of a local
  whose destructor is \<open>cleanup\<close>.
\<close>

definition catch_rethrow ::
  "('w \<Rightarrow> ('a, 'w) outcome) \<Rightarrow> ('w \<Rightarrow> (unit, 'w) outcome) \<Rightarrow> 'w \<Rightarrow> ('a, 'w) outcome" where
  "catch_rethrow m cleanup w =
     (case m w of
        Throws w' \<Rightarrow>
          (case cleanup w' of
             Normal _ w'' \<Rightarrow> Throws w''
           | Throws w'' \<Rightarrow> Throws w''
           | AssertFail \<Rightarrow> AssertFail
           | Undefined \<Rightarrow> Undefined)
      | r \<Rightarrow> r)"

definition slot_at :: "'a world \<Rightarrow> ptr \<Rightarrow> 'a slot option" where
  "slot_at w p =
     (case fst p of
        None \<Rightarrow> None
      | Some a \<Rightarrow>
          (case heap w a of
             None \<Rightarrow> None
           | Some blk \<Rightarrow>
               if 0 \<le> snd p \<and> snd p < int (length blk) then Some (blk ! nat (snd p))
               else None))"

definition set_slot :: "ptr \<Rightarrow> 'a slot \<Rightarrow> 'a world \<Rightarrow> 'a world" where
  "set_slot p s w =
     (case fst p of
        None \<Rightarrow> w
      | Some a \<Rightarrow>
          (case heap w a of
             None \<Rightarrow> w
           | Some blk \<Rightarrow> w\<lparr>heap := (heap w)(a \<mapsto> blk[nat (snd p) := s])\<rparr>))"

definition deref :: "'a world \<Rightarrow> ptr \<Rightarrow> 'a option" where
  "deref w p = (case slot_at w p of Some (Obj x) \<Rightarrow> Some x | _ \<Rightarrow> None)"

definition tick :: "op_kind \<Rightarrow> 'a world \<Rightarrow> 'a world" where
  "tick k w = w\<lparr>calls := (calls w)(k := calls w k + 1)\<rparr>"

text \<open>Placement new of an object with value \<open>x\<close>: the storage must exist.\<close>

definition place :: "ptr \<Rightarrow> 'a \<Rightarrow> 'a world \<Rightarrow> (unit, 'a world) outcome" where
  "place p x w =
     (case slot_at w p of
        None \<Rightarrow> Undefined
      | Some _ \<Rightarrow> Normal () ((set_slot p (Obj x) w)\<lparr>live := live w + 1\<rparr>))"

definition destroy_at :: "ptr \<Rightarrow> 'a world \<Rightarrow> (unit, 'a world) outcome" where
  "destroy_at p w =
     (case slot_at w p of
        Some (Obj _) \<Rightarrow> Normal () ((set_slot p Raw w)\<lparr>live := live w - 1\<rparr>)
      | _ \<Rightarrow> Undefined)"

definition value_construct :: "'a elem_type \<Rightarrow> ptr \<Rightarrow> 'a world \<Rightarrow> (unit, 'a world) outcome" where
  "value_construct T p w =
     (if throws T ValueCtor (calls w ValueCtor) then Throws (tick ValueCtor w)
      else place p (value_initialized T) (tick ValueCtor w))"

definition copy_construct ::
  "'a elem_type \<Rightarrow> ptr \<Rightarrow> ptr \<Rightarrow> 'a world \<Rightarrow> (unit, 'a world) outcome" where
  "copy_construct T dst src w =
     (case deref w src of
        None \<Rightarrow> Undefined
      | Some x \<Rightarrow>
          if throws T CopyCtor (calls w CopyCtor) then Throws (tick CopyCtor w)
          else place dst x (tick CopyCtor w))"

text \<open>A move constructor declared \<^verbatim>\<open>noexcept\<close> does not throw.\<close>

definition move_construct ::
  "'a elem_type \<Rightarrow> ptr \<Rightarrow> ptr \<Rightarrow> 'a world \<Rightarrow> (unit, 'a world) outcome" where
  "move_construct T dst src w =
     (case deref w src of
        None \<Rightarrow> Undefined
      | Some x \<Rightarrow>
          if \<not> nothrow_move_constructible T \<and> throws T MoveCtor (calls w MoveCtor)
          then Throws (tick MoveCtor w)
          else bnd (place dst x) (\<lambda>_ w'. Normal () (set_slot src (Obj (moved_from T x)) w'))
                 (tick MoveCtor w))"

definition copy_assign ::
  "'a elem_type \<Rightarrow> ptr \<Rightarrow> ptr \<Rightarrow> 'a world \<Rightarrow> (unit, 'a world) outcome" where
  "copy_assign T dst src w =
     (case (deref w dst, deref w src) of
        (Some _, Some x) \<Rightarrow>
          if throws T CopyAssign (calls w CopyAssign) then Throws (tick CopyAssign w)
          else Normal () (set_slot dst (Obj x) (tick CopyAssign w))
      | _ \<Rightarrow> Undefined)"

definition move_assign ::
  "'a elem_type \<Rightarrow> ptr \<Rightarrow> ptr \<Rightarrow> 'a world \<Rightarrow> (unit, 'a world) outcome" where
  "move_assign T dst src w =
     (case (deref w dst, deref w src) of
        (Some _, Some x) \<Rightarrow>
          if throws T MoveAssign (calls w MoveAssign) then Throws (tick MoveAssign w)
          else Normal ()
                 (set_slot src (Obj (moved_from T x)) (set_slot dst (Obj x) (tick MoveAssign w)))
      | _ \<Rightarrow> Undefined)"

text \<open>
  The arguments forwarded to a constructor of \<^verbatim>\<open>T\<close>: a \<^verbatim>\<open>const T&\<close> (copy
  construction from the object the reference points to, wherever it lives), a
  \<^verbatim>\<open>T&&\<close> (move construction from it), or other arguments from which a \<^verbatim>\<open>T\<close>
  of the given value is built.
\<close>

datatype 'a arg = CopyOf ptr | MoveOf ptr | Make 'a

fun construct :: "'a elem_type \<Rightarrow> ptr \<Rightarrow> 'a arg \<Rightarrow> 'a world \<Rightarrow> (unit, 'a world) outcome" where
  "construct T p (CopyOf q) w = copy_construct T p q w"
| "construct T p (MoveOf q) w = move_construct T p q w"
| "construct T p (Make x) w =
     (if throws T ArgsCtor (calls w ArgsCtor) then Throws (tick ArgsCtor w)
      else place p x (tick ArgsCtor w))"

subsection \<open>The algorithms of \<^verbatim>\<open><memory>\<close> and \<^verbatim>\<open><algorithm>\<close>\<close>

fun destroy_n :: "ptr \<Rightarrow> nat \<Rightarrow> 'a world \<Rightarrow> (unit, 'a world) outcome" where
  "destroy_n first 0 w = Normal () w"
| "destroy_n first (Suc n) w =
     (case destroy_at first w of
        Normal _ w' \<Rightarrow> destroy_n (ptr_add first 1) n w'
      | Throws w' \<Rightarrow> Throws w'
      | AssertFail \<Rightarrow> AssertFail
      | Undefined \<Rightarrow> Undefined)"

text \<open>
  The three \<^verbatim>\<open>std::uninitialized_..._n\<close> algorithms share their shape: element
  \<open>k\<close> of the destination is constructed by \<open>step k\<close>; when a construction
  throws, the \<open>done\<close> elements constructed so far are destroyed and the exception
  is rethrown.
\<close>

fun uninitialized_loop ::
  "(nat \<Rightarrow> 'a world \<Rightarrow> (unit, 'a world) outcome) \<Rightarrow> ptr \<Rightarrow> nat \<Rightarrow> nat \<Rightarrow> 'a world \<Rightarrow>
   (unit, 'a world) outcome" where
  "uninitialized_loop step d_first done 0 w = Normal () w"
| "uninitialized_loop step d_first done (Suc n) w =
     (case step done w of
        Normal _ w' \<Rightarrow> uninitialized_loop step d_first (Suc done) n w'
      | Throws w' \<Rightarrow>
          (case destroy_n d_first done w' of
             Normal _ w'' \<Rightarrow> Throws w''
           | Throws w'' \<Rightarrow> Throws w''
           | AssertFail \<Rightarrow> AssertFail
           | Undefined \<Rightarrow> Undefined)
      | AssertFail \<Rightarrow> AssertFail
      | Undefined \<Rightarrow> Undefined)"

definition uninitialized_copy_n ::
  "'a elem_type \<Rightarrow> ptr \<Rightarrow> nat \<Rightarrow> ptr \<Rightarrow> 'a world \<Rightarrow> (unit, 'a world) outcome" where
  "uninitialized_copy_n T first n d_first =
     uninitialized_loop
       (\<lambda>k. copy_construct T (ptr_add d_first (int k)) (ptr_add first (int k))) d_first 0 n"

definition uninitialized_move_n ::
  "'a elem_type \<Rightarrow> ptr \<Rightarrow> nat \<Rightarrow> ptr \<Rightarrow> 'a world \<Rightarrow> (unit, 'a world) outcome" where
  "uninitialized_move_n T first n d_first =
     uninitialized_loop
       (\<lambda>k. move_construct T (ptr_add d_first (int k)) (ptr_add first (int k))) d_first 0 n"

definition uninitialized_value_construct_n ::
  "'a elem_type \<Rightarrow> ptr \<Rightarrow> nat \<Rightarrow> 'a world \<Rightarrow> (unit, 'a world) outcome" where
  "uninitialized_value_construct_n T first n =
     uninitialized_loop (\<lambda>k. value_construct T (ptr_add first (int k))) first 0 n"

text \<open>
  \<^verbatim>\<open>std::move(first, last, d_first)\<close> and \<^verbatim>\<open>std::move_backward(first, last, d_last)\<close>
  assign element by element, the first from the front, the second from the back.
  Both require \<open>[first, last)\<close> to be a range: \<open>last\<close> reachable from \<open>first\<close>.
\<close>

fun move_forward_loop ::
  "'a elem_type \<Rightarrow> ptr \<Rightarrow> ptr \<Rightarrow> nat \<Rightarrow> 'a world \<Rightarrow> (unit, 'a world) outcome" where
  "move_forward_loop T first d_first 0 w = Normal () w"
| "move_forward_loop T first d_first (Suc n) w =
     (case move_assign T d_first first w of
        Normal _ w' \<Rightarrow> move_forward_loop T (ptr_add first 1) (ptr_add d_first 1) n w'
      | Throws w' \<Rightarrow> Throws w'
      | AssertFail \<Rightarrow> AssertFail
      | Undefined \<Rightarrow> Undefined)"

fun move_backward_loop ::
  "'a elem_type \<Rightarrow> ptr \<Rightarrow> ptr \<Rightarrow> nat \<Rightarrow> 'a world \<Rightarrow> (unit, 'a world) outcome" where
  "move_backward_loop T lastp d_last 0 w = Normal () w"
| "move_backward_loop T lastp d_last (Suc n) w =
     (case move_assign T (ptr_add d_last (- 1)) (ptr_add lastp (- 1)) w of
        Normal _ w' \<Rightarrow> move_backward_loop T (ptr_add lastp (- 1)) (ptr_add d_last (- 1)) n w'
      | Throws w' \<Rightarrow> Throws w'
      | AssertFail \<Rightarrow> AssertFail
      | Undefined \<Rightarrow> Undefined)"

definition range_length :: "ptr \<Rightarrow> ptr \<Rightarrow> nat option" where
  "range_length first lastp =
     (if fst first = fst lastp \<and> snd first \<le> snd lastp
      then Some (nat (snd lastp - snd first))
      else None)"

definition std_move :: "'a elem_type \<Rightarrow> ptr \<Rightarrow> ptr \<Rightarrow> ptr \<Rightarrow> 'a world \<Rightarrow> (unit, 'a world) outcome" where
  "std_move T first lastp d_first w =
     (case range_length first lastp of
        None \<Rightarrow> Undefined
      | Some n \<Rightarrow> move_forward_loop T first d_first n w)"

definition move_backward ::
  "'a elem_type \<Rightarrow> ptr \<Rightarrow> ptr \<Rightarrow> ptr \<Rightarrow> 'a world \<Rightarrow> (unit, 'a world) outcome" where
  "move_backward T first lastp d_last w =
     (case range_length first lastp of
        None \<Rightarrow> Undefined
      | Some n \<Rightarrow> move_backward_loop T lastp d_last n w)"

section \<open>RawMemory\<close>

text \<open>
  \<^verbatim>\<open>Allocate(n)\<close> asks \<^verbatim>\<open>operator new\<close> for \<^verbatim>\<open>n * sizeof(T)\<close> bytes, a product
  computed in \<^verbatim>\<open>size_t\<close>. When the product fits, the block has room for \<open>n\<close>
  objects: that is the block the model hands out. When it does not fit, the
  source receives a block of the wrapped byte count, smaller than the capacity it
  records; the model does not describe that case, and \<open>fits\<close> is the hypothesis that
  keeps a statement away from it.
\<close>

definition fits :: "'a elem_type \<Rightarrow> nat \<Rightarrow> bool" where
  "fits T n \<longleftrightarrow> n * sizeof T < 2 ^ 64"

definition Allocate :: "'a elem_type \<Rightarrow> nat \<Rightarrow> 'a world \<Rightarrow> (addr option, 'a world) outcome" where
  "Allocate T n w =
     (if n \<noteq> 0 then
        (if throws T OperatorNew (calls w OperatorNew) then Throws (tick OperatorNew w)
         else Normal (Some (next_addr w))
                ((tick OperatorNew w)
                   \<lparr>heap := (heap w)(next_addr w \<mapsto> replicate n Raw),
                    next_addr := next_addr w + 1\<rparr>))
      else Normal None w)"

text \<open>\<^verbatim>\<open>operator delete\<close>: nothing for \<^verbatim>\<open>nullptr\<close>; the block must be allocated.\<close>

definition Deallocate :: "addr option \<Rightarrow> 'a world \<Rightarrow> (unit, 'a world) outcome" where
  "Deallocate buf w =
     (case buf of
        None \<Rightarrow> Normal () w
      | Some a \<Rightarrow>
          (case heap w a of
             None \<Rightarrow> Undefined
           | Some _ \<Rightarrow> Normal () (w\<lparr>heap := (heap w)(a := None)\<rparr>)))"

definition RawMemory_default :: RawMemory where
  "RawMemory_default = \<lparr>buffer_m = None, capacity_m = 0\<rparr>"

definition RawMemory_ctor ::
  "'a elem_type \<Rightarrow> nat \<Rightarrow> 'a world \<Rightarrow> (RawMemory, 'a world) outcome" where
  "RawMemory_ctor T capacity =
     bnd (Allocate T capacity) (\<lambda>buf. ret \<lparr>buffer_m = buf, capacity_m = capacity\<rparr>)"

definition RawMemory_dtor :: "RawMemory \<Rightarrow> 'a world \<Rightarrow> (unit, 'a world) outcome" where
  "RawMemory_dtor m = Deallocate (buffer_m m)"

definition RawMemory_Swap :: "RawMemory \<Rightarrow> RawMemory \<Rightarrow> RawMemory \<times> RawMemory" where
  "RawMemory_Swap this other = (other, this)"

text \<open>The move constructor returns the new object and what is left of \<open>other\<close>.\<close>

definition RawMemory_move_ctor :: "RawMemory \<Rightarrow> RawMemory \<times> RawMemory" where
  "RawMemory_move_ctor other =
     (\<lparr>buffer_m = buffer_m other, capacity_m = capacity_m other\<rparr>,
      other\<lparr>buffer_m := None, capacity_m := 0\<rparr>)"

text \<open>
  The body of move assignment under its test \<^verbatim>\<open>this != &rhs\<close>, which the caller
  decides, as only it knows where the two objects live.
\<close>

definition RawMemory_move_assign ::
  "RawMemory \<Rightarrow> RawMemory \<Rightarrow> 'a world \<Rightarrow> (RawMemory \<times> RawMemory, 'a world) outcome" where
  "RawMemory_move_assign this rhs =
     bnd (Deallocate (buffer_m this)) (\<lambda>_. ret (RawMemory_Swap (this\<lparr>capacity_m := 0\<rparr>) rhs))"

definition RawMemory_plus :: "RawMemory \<Rightarrow> nat \<Rightarrow> 'w \<Rightarrow> (ptr, 'w) outcome" where
  "RawMemory_plus m offset w =
     (if offset \<le> capacity_m m then Normal (buffer_m m, int offset) w else AssertFail)"

definition RawMemory_index :: "RawMemory \<Rightarrow> nat \<Rightarrow> 'w \<Rightarrow> (ptr, 'w) outcome" where
  "RawMemory_index m index w =
     (if index < capacity_m m then Normal (buffer_m m, int index) w else AssertFail)"

definition GetAddress :: "RawMemory \<Rightarrow> ptr" where
  "GetAddress m = (buffer_m m, 0)"

section \<open>Vector\<close>

text \<open>
  Vector objects live in the world under their address, so that \<^verbatim>\<open>this != &rhs\<close>
  is a comparison of addresses. The members \<^verbatim>\<open>buffer_\<close>, \<^verbatim>\<open>capacity_\<close>, \<^verbatim>\<open>data_\<close>
  and \<^verbatim>\<open>size_\<close> of the source are the fields \<open>buffer_m\<close>, \<open>capacity_m\<close>, \<open>data_m\<close>
  and \<open>size_m\<close>.
\<close>

definition set_vector :: "nat \<Rightarrow> Vector \<Rightarrow> 'a world \<Rightarrow> (unit, 'a world) outcome" where
  "set_vector this v w = Normal () (w\<lparr>vectors := (vectors w)(this := v)\<rparr>)"

definition set_data :: "nat \<Rightarrow> RawMemory \<Rightarrow> 'a world \<Rightarrow> (unit, 'a world) outcome" where
  "set_data this d w = set_vector this ((vectors w this)\<lparr>data_m := d\<rparr>) w"

definition set_size :: "nat \<Rightarrow> nat \<Rightarrow> 'a world \<Rightarrow> (unit, 'a world) outcome" where
  "set_size this n w = set_vector this ((vectors w this)\<lparr>size_m := n\<rparr>) w"

definition Vector_default :: Vector where
  "Vector_default = \<lparr>data_m = RawMemory_default, size_m = 0\<rparr>"

definition Vector_begin :: "Vector \<Rightarrow> ptr" where
  "Vector_begin v = GetAddress (data_m v)"

definition Vector_end :: "Vector \<Rightarrow> ptr" where
  "Vector_end v = ptr_add (GetAddress (data_m v)) (int (size_m v))"

definition Size :: "'a world \<Rightarrow> nat \<Rightarrow> nat" where
  "Size w this = size_m (vectors w this)"

definition Capacity :: "'a world \<Rightarrow> nat \<Rightarrow> nat" where
  "Capacity w this = capacity_m (data_m (vectors w this))"

definition Vector_default_ctor :: "nat \<Rightarrow> 'a world \<Rightarrow> (unit, 'a world) outcome" where
  "Vector_default_ctor this = set_vector this Vector_default"

text \<open>
  When a constructor throws, the member \<^verbatim>\<open>data_\<close> is destroyed and the object
  never comes to life; what is left under its address is not a vector.
\<close>

definition Vector_size_ctor ::
  "'a elem_type \<Rightarrow> nat \<Rightarrow> nat \<Rightarrow> 'a world \<Rightarrow> (unit, 'a world) outcome" where
  "Vector_size_ctor T this n =
     bnd (RawMemory_ctor T n) (\<lambda>d.
     bnd (set_vector this \<lparr>data_m = d, size_m = n\<rparr>) (\<lambda>_.
     catch_rethrow (uninitialized_value_construct_n T (GetAddress d) n) (RawMemory_dtor d)))"

definition Vector_copy_ctor ::
  "'a elem_type \<Rightarrow> nat \<Rightarrow> nat \<Rightarrow> 'a world \<Rightarrow> (unit, 'a world) outcome" where
  "Vector_copy_ctor T this other w =
     (let other_v = vectors w other in
      bnd (RawMemory_ctor T (size_m other_v)) (\<lambda>d.
      bnd (set_vector this \<lparr>data_m = d, size_m = size_m other_v\<rparr>) (\<lambda>_.
      catch_rethrow
        (uninitialized_copy_n T (GetAddress (data_m other_v)) (size_m other_v) (GetAddress d))
        (RawMemory_dtor d))) w)"

definition Vector_dtor :: "nat \<Rightarrow> 'a world \<Rightarrow> (unit, 'a world) outcome" where
  "Vector_dtor this w =
     (let v = vectors w this in
      bnd (destroy_n (GetAddress (data_m v)) (size_m v)) (\<lambda>_. RawMemory_dtor (data_m v)) w)"

text \<open>
  \<^verbatim>\<open>std::swap(data_, other.data_)\<close> is \<^verbatim>\<open>RawMemory tmp(std::move(a)); a = std::move(b);
  b = std::move(tmp);\<close> followed by the destruction of \<open>tmp\<close>.
\<close>

definition swap_data :: "nat \<Rightarrow> nat \<Rightarrow> 'a world \<Rightarrow> (unit, 'a world) outcome" where
  "swap_data a b w =
     (case RawMemory_move_ctor (data_m (vectors w a)) of (tmp, a1) \<Rightarrow>
        bnd (set_data a a1) (\<lambda>_.
        bnd (\<lambda>w. if a \<noteq> b
                 then bnd (RawMemory_move_assign (data_m (vectors w a)) (data_m (vectors w b)))
                        (\<lambda>r. bnd (set_data a (fst r)) (\<lambda>_. set_data b (snd r))) w
                 else Normal () w) (\<lambda>_.
        (\<lambda>w. bnd (RawMemory_move_assign (data_m (vectors w b)) tmp)
                (\<lambda>r. bnd (set_data b (fst r)) (\<lambda>_. RawMemory_dtor (snd r))) w))) w)"

definition swap_size :: "nat \<Rightarrow> nat \<Rightarrow> 'a world \<Rightarrow> (unit, 'a world) outcome" where
  "swap_size a b w =
     (let tmp = size_m (vectors w a) in
      bnd (set_size a (size_m (vectors w b))) (\<lambda>_. set_size b tmp) w)"

definition Swap :: "nat \<Rightarrow> nat \<Rightarrow> 'a world \<Rightarrow> (unit, 'a world) outcome" where
  "Swap this other = bnd (swap_data this other) (\<lambda>_. swap_size this other)"

definition Vector_move_ctor :: "nat \<Rightarrow> nat \<Rightarrow> 'a world \<Rightarrow> (unit, 'a world) outcome" where
  "Vector_move_ctor this rhs = bnd (Vector_default_ctor this) (\<lambda>_. Swap this rhs)"

definition Vector_move_assign :: "nat \<Rightarrow> nat \<Rightarrow> 'a world \<Rightarrow> (unit, 'a world) outcome" where
  "Vector_move_assign this rhs w = (if this \<noteq> rhs then Swap this rhs w else Normal () w)"

text \<open>\<^verbatim>\<open>operator[]\<close> returns a reference: the address of the element.\<close>

definition operator_index :: "nat \<Rightarrow> nat \<Rightarrow> 'a world \<Rightarrow> (ptr, 'a world) outcome" where
  "operator_index this index w =
     (let v = vectors w this in
      if index < size_m v then RawMemory_index (data_m v) index w else AssertFail)"

definition Reserve :: "'a elem_type \<Rightarrow> nat \<Rightarrow> nat \<Rightarrow> 'a world \<Rightarrow> (unit, 'a world) outcome" where
  "Reserve T this new_capacity w =
     (let v = vectors w this in
      if new_capacity \<le> capacity_m (data_m v) then Normal () w
      else
        bnd (RawMemory_ctor T new_capacity) (\<lambda>new_data.
        bnd (catch_rethrow
               (bnd (if nothrow_move_constructible T \<or> \<not> copy_constructible T
                     then uninitialized_move_n T (GetAddress (data_m v)) (size_m v)
                            (GetAddress new_data)
                     else uninitialized_copy_n T (GetAddress (data_m v)) (size_m v)
                            (GetAddress new_data)) (\<lambda>_.
                destroy_n (GetAddress (data_m v)) (size_m v)))
               (RawMemory_dtor new_data)) (\<lambda>_.
        case RawMemory_Swap (data_m v) new_data of (d, new_data') \<Rightarrow>
          bnd (set_data this d) (\<lambda>_. RawMemory_dtor new_data'))) w)"

definition Resize :: "'a elem_type \<Rightarrow> nat \<Rightarrow> nat \<Rightarrow> 'a world \<Rightarrow> (unit, 'a world) outcome" where
  "Resize T this new_size w =
     (let v = vectors w this in
      if new_size < size_m v then
        bnd (destroy_n (ptr_add (GetAddress (data_m v)) (int new_size)) (size_m v - new_size))
          (\<lambda>_. set_size this new_size) w
      else
        bnd (Reserve T this new_size) (\<lambda>_ w'.
          bnd (uninitialized_value_construct_n T
                 (ptr_add (GetAddress (data_m (vectors w' this))) (int (size_m (vectors w' this))))
                 (new_size - size_m (vectors w' this)))
            (\<lambda>_. set_size this new_size) w') w)"

text \<open>
  In the growth branch the new element is constructed first, in the new
  storage; the local \<^verbatim>\<open>new_data\<close> releases the new storage when an exception
  unwinds it, and the old storage at the end of the block.
\<close>

definition EmplaceBack ::
  "'a elem_type \<Rightarrow> nat \<Rightarrow> 'a arg \<Rightarrow> 'a world \<Rightarrow> (ptr, 'a world) outcome" where
  "EmplaceBack T this args w =
     (let v = vectors w this in
      if size_m v < capacity_m (data_m v) then
        bnd (RawMemory_plus (data_m v) (size_m v)) (\<lambda>res.
        bnd (construct T res args) (\<lambda>_.
        bnd (set_size this (size_m v + 1)) (\<lambda>_. ret res))) w
      else
        bnd (RawMemory_ctor T (if size_m v = 0 then 1 else size_m v * 2)) (\<lambda>new_data.
        bnd (catch_rethrow
               (bnd (RawMemory_plus new_data (size_m v)) (\<lambda>res.
                bnd (construct T res args) (\<lambda>_.
                bnd (if nothrow_move_constructible T \<or> \<not> copy_constructible T
                     then uninitialized_move_n T (GetAddress (data_m v)) (size_m v)
                            (GetAddress new_data)
                     else catch_rethrow
                            (uninitialized_copy_n T (GetAddress (data_m v)) (size_m v)
                               (GetAddress new_data))
                            (destroy_n (ptr_add (GetAddress new_data) (int (size_m v))) 1)) (\<lambda>_.
                bnd (destroy_n (GetAddress (data_m v)) (size_m v)) (\<lambda>_. ret res)))))
               (RawMemory_dtor new_data)) (\<lambda>res.
        case RawMemory_Swap (data_m v) new_data of (d, new_data') \<Rightarrow>
          bnd (set_data this d) (\<lambda>_.
          bnd (set_size this (size_m v + 1)) (\<lambda>_.
          bnd (RawMemory_dtor new_data') (\<lambda>_. ret res))))) w)"

definition PushBack :: "'a elem_type \<Rightarrow> nat \<Rightarrow> 'a arg \<Rightarrow> 'a world \<Rightarrow> (unit, 'a world) outcome" where
  "PushBack T this val = bnd (EmplaceBack T this val) (\<lambda>_. ret ())"

text \<open>
  \<^verbatim>\<open>PopBack\<close> has no check. On an empty vector the pointer
  \<^verbatim>\<open>data_.GetAddress() + size_ - 1\<close> lies before the storage and \<^verbatim>\<open>destroy_at\<close>
  is undefined; the decrement is reached only after an object was destroyed
  at offset \<open>size_ - 1\<close>, so that \<open>size_\<close> is positive there.
\<close>

definition PopBack :: "nat \<Rightarrow> 'a world \<Rightarrow> (unit, 'a world) outcome" where
  "PopBack this w =
     (let v = vectors w this in
      bnd (destroy_at (ptr_add (ptr_add (GetAddress (data_m v)) (int (size_m v))) (- 1)))
        (\<lambda>_. set_size this (size_m v - 1)) w)"

text \<open>
  A local \<^verbatim>\<open>T tmp(args...)\<close>: storage of its own for one object, the
  construction, the body, and the destruction of \<open>tmp\<close> on both exits.
\<close>

definition stack_alloc :: "'a world \<Rightarrow> (ptr, 'a world) outcome" where
  "stack_alloc w =
     Normal (Some (next_addr w), 0)
       (w\<lparr>heap := (heap w)(next_addr w \<mapsto> [Raw]), next_addr := next_addr w + 1\<rparr>)"

definition stack_free :: "ptr \<Rightarrow> 'a world \<Rightarrow> (unit, 'a world) outcome" where
  "stack_free p w =
     (case fst p of None \<Rightarrow> Undefined | Some a \<Rightarrow> Normal () (w\<lparr>heap := (heap w)(a := None)\<rparr>))"

definition with_local ::
  "'a elem_type \<Rightarrow> 'a arg \<Rightarrow> (ptr \<Rightarrow> 'a world \<Rightarrow> ('r, 'a world) outcome) \<Rightarrow> 'a world \<Rightarrow>
   ('r, 'a world) outcome" where
  "with_local T args body =
     bnd stack_alloc (\<lambda>tmp.
     bnd (catch_rethrow (construct T tmp args) (stack_free tmp)) (\<lambda>_.
     bnd (catch_rethrow (body tmp) (bnd (destroy_at tmp) (\<lambda>_. stack_free tmp))) (\<lambda>r.
     bnd (destroy_at tmp) (\<lambda>_.
     bnd (stack_free tmp) (\<lambda>_. ret r)))))"

text \<open>
  \<^verbatim>\<open>size_ - index\<close> is unsigned: for \<open>index > size_\<close> it is a count near
  \<open>2\<^sup>6\<^sup>4\<close> and the copy runs off the storage.
\<close>

definition ReallocateWithCopy ::
  "'a elem_type \<Rightarrow> nat \<Rightarrow> nat \<Rightarrow> 'a arg \<Rightarrow> 'a world \<Rightarrow> (unit, 'a world) outcome" where
  "ReallocateWithCopy T this index args w =
     (let v = vectors w this in
      bnd (RawMemory_ctor T (if size_m v = 0 then 1 else size_m v * 2)) (\<lambda>new_data.
      bnd (catch_rethrow
             (bnd (RawMemory_plus new_data index) (\<lambda>p.
              bnd (construct T p args) (\<lambda>_.
              bnd (catch_rethrow
                     (bnd (uninitialized_copy_n T (Vector_begin v) index (GetAddress new_data))
                        (\<lambda>_.
                      if index \<le> size_m v
                      then uninitialized_copy_n T (ptr_add (Vector_begin v) (int index))
                             (size_m v - index)
                             (ptr_add (ptr_add (GetAddress new_data) (int index)) 1)
                      else (\<lambda>_. Undefined)))
                     (destroy_n (ptr_add (GetAddress new_data) (int index)) 1)) (\<lambda>_.
              destroy_n (Vector_begin v) (size_m v)))))
             (RawMemory_dtor new_data)) (\<lambda>_.
      case RawMemory_Swap (data_m v) new_data of (d, new_data') \<Rightarrow>
        bnd (set_data this d) (\<lambda>_. RawMemory_dtor new_data'))) w)"

definition ReallocateWithMove ::
  "'a elem_type \<Rightarrow> nat \<Rightarrow> nat \<Rightarrow> 'a arg \<Rightarrow> 'a world \<Rightarrow> (unit, 'a world) outcome" where
  "ReallocateWithMove T this index args w =
     (let v = vectors w this in
      bnd (RawMemory_ctor T (if size_m v = 0 then 1 else size_m v * 2)) (\<lambda>new_data.
      bnd (catch_rethrow
             (bnd (RawMemory_plus new_data index) (\<lambda>p.
              bnd (construct T p args) (\<lambda>_.
              bnd (uninitialized_move_n T (Vector_begin v) index (GetAddress new_data)) (\<lambda>_.
              bnd (if index \<le> size_m v
                   then uninitialized_move_n T (ptr_add (Vector_begin v) (int index))
                          (size_m v - index)
                          (ptr_add (ptr_add (GetAddress new_data) (int index)) 1)
                   else (\<lambda>_. Undefined)) (\<lambda>_.
              destroy_n (Vector_begin v) (size_m v))))))
             (RawMemory_dtor new_data)) (\<lambda>_.
      case RawMemory_Swap (data_m v) new_data of (d, new_data') \<Rightarrow>
        bnd (set_data this d) (\<lambda>_. RawMemory_dtor new_data'))) w)"

text \<open>
  \<^verbatim>\<open>pos - begin()\<close> is defined for two pointers into the same storage; a position
  before \<^verbatim>\<open>begin()\<close> is not an iterator of the vector.
\<close>

definition ptr_diff :: "ptr \<Rightarrow> ptr \<Rightarrow> nat option" where
  "ptr_diff p q =
     (if fst p = fst q \<and> snd q \<le> snd p then Some (nat (snd p - snd q)) else None)"

definition Emplace ::
  "'a elem_type \<Rightarrow> nat \<Rightarrow> ptr \<Rightarrow> 'a arg \<Rightarrow> 'a world \<Rightarrow> (ptr, 'a world) outcome" where
  "Emplace T this pos args w =
     (let v = vectors w this in
      if pos = Vector_end v then EmplaceBack T this args w
      else
        (case ptr_diff pos (Vector_begin v) of
           None \<Rightarrow> Undefined
         | Some index \<Rightarrow>
             bnd (if size_m v < capacity_m (data_m v) then
                    with_local T args (\<lambda>tmp.
                      bnd (move_construct T (Vector_end v) (ptr_add (Vector_end v) (- 1))) (\<lambda>_.
                      bnd (catch_rethrow
                             (move_backward T (ptr_add (Vector_begin v) (int index))
                                (ptr_add (Vector_end v) (- 1)) (Vector_end v))
                             (destroy_n (Vector_end v) 1)) (\<lambda>_.
                      bnd (RawMemory_index (data_m v) index) (\<lambda>p. move_assign T p tmp))))
                  else if nothrow_move_constructible T \<or> \<not> copy_constructible T
                  then ReallocateWithMove T this index args
                  else ReallocateWithCopy T this index args) (\<lambda>_ w1.
             bnd (set_size this (size_m (vectors w1 this) + 1)) (\<lambda>_ w2.
               ret (ptr_add (Vector_begin (vectors w2 this)) (int index)) w2) w1) w))"

definition Insert ::
  "'a elem_type \<Rightarrow> nat \<Rightarrow> ptr \<Rightarrow> 'a arg \<Rightarrow> 'a world \<Rightarrow> (ptr, 'a world) outcome" where
  "Insert T this pos val = Emplace T this pos val"

text \<open>\<^verbatim>\<open>Erase\<close> has no check either.\<close>

definition Erase :: "'a elem_type \<Rightarrow> nat \<Rightarrow> ptr \<Rightarrow> 'a world \<Rightarrow> (ptr, 'a world) outcome" where
  "Erase T this pos w =
     (let v = vectors w this; it_pos = pos in
      bnd (std_move T (ptr_add it_pos 1) (Vector_end v) it_pos) (\<lambda>_.
      bnd (destroy_at (ptr_add (ptr_add (GetAddress (data_m v)) (int (size_m v))) (- 1))) (\<lambda>_.
      bnd (set_size this (size_m v - 1)) (\<lambda>_. ret it_pos))) w)"

section \<open>Observations\<close>

text \<open>
  What a caller can see of the vector at address \<open>this\<close>: its length, its
  capacity, and the slots of its storage; the first \<open>Size\<close> of them are its
  elements.
\<close>

definition storage :: "'a world \<Rightarrow> nat \<Rightarrow> 'a slot list" where
  "storage w this =
     (case buffer_m (data_m (vectors w this)) of
        None \<Rightarrow> []
      | Some a \<Rightarrow> (case heap w a of None \<Rightarrow> [] | Some blk \<Rightarrow> blk))"

definition elements :: "'a world \<Rightarrow> nat \<Rightarrow> 'a slot list" where
  "elements w this = take (Size w this) (storage w this)"

fun is_live :: "'a slot \<Rightarrow> bool" where
  "is_live (Obj x) = True"
| "is_live Raw = False"

definition invariant :: "'a world \<Rightarrow> nat \<Rightarrow> bool" where
  "invariant w this =
     (let v = vectors w this in
      size_m v \<le> capacity_m (data_m v) \<and>
      (case buffer_m (data_m v) of
         None \<Rightarrow> capacity_m (data_m v) = 0
       | Some a \<Rightarrow>
           (case heap w a of
              None \<Rightarrow> False
            | Some blk \<Rightarrow>
                length blk = capacity_m (data_m v) \<and>
                list_all is_live (take (size_m v) blk) \<and>
                list_all (\<lambda>s. s = Raw) (drop (size_m v) blk))))"

definition holds :: "'a world \<Rightarrow> nat \<Rightarrow> 'a list \<Rightarrow> nat \<Rightarrow> bool" where
  "holds w this xs k \<longleftrightarrow>
     size_m (vectors w this) = length xs \<and>
     capacity_m (data_m (vectors w this)) = length xs + k \<and>
     (case buffer_m (data_m (vectors w this)) of
        None \<Rightarrow> length xs + k = 0
      | Some a \<Rightarrow> heap w a = Some (map Obj xs @ replicate k Raw))"

definition after :: "('r, 'w) outcome \<Rightarrow> 'w option" where
  "after r = (case r of Normal _ w \<Rightarrow> Some w | _ \<Rightarrow> None)"

definition thrown :: "('r, 'w) outcome \<Rightarrow> 'w option" where
  "thrown r = (case r of Throws w \<Rightarrow> Some w | _ \<Rightarrow> None)"

definition rejected :: "('r, 'w) outcome \<Rightarrow> bool" where
  "rejected r = (case r of AssertFail \<Rightarrow> True | Throws _ \<Rightarrow> True | _ \<Rightarrow> False)"

text \<open>Consecutive appends, stopping at the first that does not return normally.\<close>

fun appends :: "'a elem_type \<Rightarrow> nat \<Rightarrow> 'a arg list \<Rightarrow> 'a world \<Rightarrow> (unit, 'a world) outcome" where
  "appends T this [] w = Normal () w"
| "appends T this (a # as) w =
     (case PushBack T this a w of
        Normal _ w' \<Rightarrow> appends T this as w'
      | Throws w' \<Rightarrow> Throws w'
      | AssertFail \<Rightarrow> AssertFail
      | Undefined \<Rightarrow> Undefined)"

section \<open>Example element types and worlds\<close>

definition int_type :: "int elem_type" where
  "int_type =
     \<lparr>nothrow_move_constructible = True, copy_constructible = True, moved_from = (\<lambda>x. x),
      value_initialized = 0, sizeof = 4, throws = (\<lambda>_ _. False)\<rparr>"

definition empty_world :: "int world" where
  "empty_world =
     \<lparr>heap = (\<lambda>_. None), next_addr = 0, vectors = (\<lambda>_. Vector_default), live = 0,
      calls = (\<lambda>_. 0)\<rparr>"

definition two_vectors :: "int world" where
  "two_vectors =
     \<lparr>heap = [0 \<mapsto> [Obj 1], 1 \<mapsto> [Obj 2]], next_addr = 2,
      vectors = (\<lambda>_. Vector_default)
        (0 := \<lparr>data_m = \<lparr>buffer_m = Some 0, capacity_m = 1\<rparr>, size_m = 1\<rparr>,
         1 := \<lparr>data_m = \<lparr>buffer_m = Some 1, capacity_m = 1\<rparr>, size_m = 1\<rparr>),
      live = 2, calls = (\<lambda>_. 0)\<rparr>"

text \<open>
  An element type whose copy constructor throws on invocation \<open>K\<close> (counted from
  0) and whose move constructor is not \<^verbatim>\<open>noexcept\<close>; one whose move assignment
  throws on invocation \<open>K\<close>; and a move-only type with a move constructor that is
  not \<^verbatim>\<open>noexcept\<close>.
\<close>

definition copy_throws_at :: "nat \<Rightarrow> int elem_type" where
  "copy_throws_at K =
     \<lparr>nothrow_move_constructible = False, copy_constructible = True, moved_from = (\<lambda>x. 0),
      value_initialized = 0, sizeof = 4, throws = (\<lambda>k n. k = CopyCtor \<and> n = K)\<rparr>"

definition move_assign_throws_at :: "nat \<Rightarrow> int elem_type" where
  "move_assign_throws_at K =
     \<lparr>nothrow_move_constructible = True, copy_constructible = True, moved_from = (\<lambda>x. 0),
      value_initialized = 0, sizeof = 4, throws = (\<lambda>k n. k = MoveAssign \<and> n = K)\<rparr>"

definition move_only_type :: "int elem_type" where
  "move_only_type =
     \<lparr>nothrow_move_constructible = False, copy_constructible = False, moved_from = (\<lambda>x. 0),
      value_initialized = 0, sizeof = 4, throws = (\<lambda>_ _. False)\<rparr>"

text \<open>
  The vector at address 0 holds \<open>[1, 2]\<close>, with capacity 2 in \<open>full_vector\<close> and
  capacity 4 in \<open>spare_vector\<close>; an object of value 99 lives outside it.
\<close>

definition full_vector :: "int world" where
  "full_vector =
     \<lparr>heap = [0 \<mapsto> [Obj 1, Obj 2], 1 \<mapsto> [Obj 99]], next_addr = 2,
      vectors = (\<lambda>_. Vector_default)
        (0 := \<lparr>data_m = \<lparr>buffer_m = Some 0, capacity_m = 2\<rparr>, size_m = 2\<rparr>),
      live = 3, calls = (\<lambda>_. 0)\<rparr>"

definition spare_vector :: "int world" where
  "spare_vector =
     \<lparr>heap = [0 \<mapsto> [Obj 1, Obj 2, Raw, Raw], 1 \<mapsto> [Obj 99]], next_addr = 2,
      vectors = (\<lambda>_. Vector_default)
        (0 := \<lparr>data_m = \<lparr>buffer_m = Some 0, capacity_m = 4\<rparr>, size_m = 2\<rparr>),
      live = 3, calls = (\<lambda>_. 0)\<rparr>"

text \<open>The vector at address 0 holds \<open>[1, 2, 3, 4]\<close> and is full.\<close>

definition four_elements :: "int world" where
  "four_elements =
     \<lparr>heap = [0 \<mapsto> [Obj 1, Obj 2, Obj 3, Obj 4]], next_addr = 1,
      vectors = (\<lambda>_. Vector_default)
        (0 := \<lparr>data_m = \<lparr>buffer_m = Some 0, capacity_m = 4\<rparr>, size_m = 4\<rparr>),
      live = 4, calls = (\<lambda>_. 0)\<rparr>"

text \<open>
  A copyable element type whose move constructor is not \<^verbatim>\<open>noexcept\<close>, and
  which never throws.
\<close>

definition cautious_type :: "int elem_type" where
  "cautious_type =
     \<lparr>nothrow_move_constructible = False, copy_constructible = True, moved_from = (\<lambda>x. 0),
      value_initialized = 0, sizeof = 4, throws = (\<lambda>_ _. False)\<rparr>"

section \<open>Auxiliary notions for the proofs\<close>

text \<open>
  \<open>holds w this xs k\<close>: the vector at \<open>this\<close> satisfies the invariant, its elements
  have the values \<open>xs\<close> and \<open>k\<close> slots are spare. \<open>no_failure\<close>: from this world on,
  no operation of the element type and no allocation throws. \<open>wf_world\<close>: the
  allocator has handed out only addresses below \<open>next_addr\<close>. \<open>arg_value\<close> is the
  value a constructor argument denotes, \<open>moved_block\<close> the storage an rvalue argument
  lives in, \<open>external\<close> says that it is not the vector's own storage, and
  \<open>arg_effect\<close> is what the construction does besides creating the new object.
  \<open>moves T\<close> is the condition of the source's \<^verbatim>\<open>if constexpr\<close>.
\<close>

definition no_failure :: "'a elem_type \<Rightarrow> 'a world \<Rightarrow> bool" where
  "no_failure T w \<longleftrightarrow> (\<forall>k n. calls w k \<le> n \<longrightarrow> \<not> throws T k n)"

definition wf_world :: "'a world \<Rightarrow> bool" where
  "wf_world w \<longleftrightarrow> (\<forall>c. next_addr w \<le> c \<longrightarrow> heap w c = None)"

fun husk :: "'a elem_type \<Rightarrow> 'a slot \<Rightarrow> 'a slot" where
  "husk T (Obj x) = Obj (moved_from T x)"
| "husk T Raw = Raw"

definition arg_value :: "'a world \<Rightarrow> 'a arg \<Rightarrow> 'a option" where
  "arg_value w args = (case args of CopyOf q \<Rightarrow> deref w q | MoveOf q \<Rightarrow> deref w q | Make x \<Rightarrow> Some x)"

definition moved_block :: "'a arg \<Rightarrow> addr option" where
  "moved_block args = (case args of MoveOf q \<Rightarrow> fst q | _ \<Rightarrow> None)"

definition arg_calls :: "'a arg \<Rightarrow> op_kind \<Rightarrow> nat" where
  "arg_calls args k =
     (case args of
        CopyOf _ \<Rightarrow> (if k = CopyCtor then 1 else 0)
      | MoveOf _ \<Rightarrow> (if k = MoveCtor then 1 else 0)
      | Make _ \<Rightarrow> (if k = ArgsCtor then 1 else 0))"

definition arg_effect :: "'a elem_type \<Rightarrow> 'a arg \<Rightarrow> 'a world \<Rightarrow> 'a world" where
  "arg_effect T args w =
     (case args of
        CopyOf q \<Rightarrow> tick CopyCtor w
      | MoveOf q \<Rightarrow>
          (case deref w q of
             None \<Rightarrow> tick MoveCtor w
           | Some x \<Rightarrow> set_slot q (Obj (moved_from T x)) (tick MoveCtor w))
      | Make x \<Rightarrow> tick ArgsCtor w)"

definition moves :: "'a elem_type \<Rightarrow> bool" where
  "moves T \<longleftrightarrow> nothrow_move_constructible T \<or> \<not> copy_constructible T"

definition transfer_ctor :: "'a elem_type \<Rightarrow> op_kind" where
  "transfer_ctor T = (if moves T then MoveCtor else CopyCtor)"

definition residue :: "'a elem_type \<Rightarrow> 'a list \<Rightarrow> 'a list" where
  "residue T ys = (if moves T then map (moved_from T) ys else ys)"

definition external :: "'a world \<Rightarrow> nat \<Rightarrow> 'a arg \<Rightarrow> bool" where
  "external w this args \<longleftrightarrow>
     (\<forall>a. buffer_m (data_m (vectors w this)) = Some a \<longrightarrow> moved_block args \<noteq> Some a)"

section \<open>Operations on two vectors\<close>

text \<open>
  The caller's \<^verbatim>\<open>v[index] = x\<close>: \<^verbatim>\<open>operator[]\<close>, then the copy or move assignment
  of the element type; for constructor arguments a temporary is built first
  and moved from.
\<close>

definition assign_element ::
  "'a elem_type \<Rightarrow> nat \<Rightarrow> nat \<Rightarrow> 'a arg \<Rightarrow> 'a world \<Rightarrow> (unit, 'a world) outcome" where
  "assign_element T this index args =
     bnd (operator_index this index) (\<lambda>p.
       case args of
         CopyOf q \<Rightarrow> copy_assign T p q
       | MoveOf q \<Rightarrow> move_assign T p q
       | Make x \<Rightarrow> with_local T (Make x) (\<lambda>tmp. move_assign T p tmp))"

text \<open>
  The operations a caller applies to one vector, positions given as indices
  from \<^verbatim>\<open>begin()\<close>.
\<close>

datatype 'a operation =
  OpPushBack "'a arg" | OpPopBack | OpInsert nat "'a arg" | OpErase nat | OpReserve nat
  | OpResize nat | OpAssign nat "'a arg"

fun run_op :: "'a elem_type \<Rightarrow> nat \<Rightarrow> 'a operation \<Rightarrow> 'a world \<Rightarrow> (unit, 'a world) outcome" where
  "run_op T this (OpPushBack a) w = PushBack T this a w"
| "run_op T this OpPopBack w = PopBack this w"
| "run_op T this (OpInsert i a) w =
     bnd (Insert T this (ptr_add (Vector_begin (vectors w this)) (int i)) a) (\<lambda>_. ret ()) w"
| "run_op T this (OpErase i) w =
     bnd (Erase T this (ptr_add (Vector_begin (vectors w this)) (int i))) (\<lambda>_. ret ()) w"
| "run_op T this (OpReserve n) w = Reserve T this n w"
| "run_op T this (OpResize n) w = Resize T this n w"
| "run_op T this (OpAssign i a) w = assign_element T this i a w"

text \<open>
  \<open>op_fits T c\<close>: the byte count of the capacity or length that the caller asks
  for in \<open>c\<close> fits \<^verbatim>\<open>size_t\<close>.
\<close>

fun op_fits :: "'a elem_type \<Rightarrow> 'a operation \<Rightarrow> bool" where
  "op_fits T (OpReserve n) = fits T n"
| "op_fits T (OpResize n) = fits T n"
| "op_fits T _ = True"

fun op_moved_block :: "'a operation \<Rightarrow> addr option" where
  "op_moved_block (OpPushBack a) = moved_block a"
| "op_moved_block (OpInsert i a) = moved_block a"
| "op_moved_block (OpAssign i a) = moved_block a"
| "op_moved_block _ = None"

text \<open>
  \<open>away V0 a\<close>: the address \<open>a\<close> is not that of the storage of the vector object
  \<open>V0\<close>. \<open>foreign w v c\<close>: the operation \<open>c\<close> does not take an rvalue argument out
  of the storage of the vector \<open>v\<close> (moving an element out of \<open>v\<close> changes \<open>v\<close> by
  the caller's own hand). \<open>same w w' v\<close>: the vector \<open>v\<close> has the same length and
  the same elements in both worlds.
\<close>

definition away :: "Vector \<Rightarrow> addr option \<Rightarrow> bool" where
  "away V0 a \<longleftrightarrow> (\<forall>b. buffer_m (data_m V0) = Some b \<longrightarrow> a \<noteq> Some b)"

definition foreign :: "'a world \<Rightarrow> nat \<Rightarrow> 'a operation \<Rightarrow> bool" where
  "foreign w v c \<longleftrightarrow> away (vectors w v) (op_moved_block c)"

definition same :: "'a world \<Rightarrow> 'a world \<Rightarrow> nat \<Rightarrow> bool" where
  "same w w' v \<longleftrightarrow> Size w' v = Size w v \<and> elements w' v = elements w v"

text \<open>
  A sequence of operations, each applied to the vector \<open>a\<close> (marked \<open>True\<close>) or to the
  vector \<open>b\<close>, run from the world \<open>w\<close>; an operation that throws is followed by the
  next one, as when the caller catches the exception. \<open>undisturbed\<close> says that
  every operation of the sequence that returns or throws leaves the vector it is
  not applied to with the same length and elements; the run is followed up to the
  first operation that is not \<open>foreign\<close> to the other vector, that asks for a
  capacity or length whose byte count does not fit \<^verbatim>\<open>size_t\<close>, or whose behaviour
  is undefined.
\<close>

fun undisturbed ::
  "'a elem_type \<Rightarrow> nat \<Rightarrow> nat \<Rightarrow> (bool \<times> 'a operation) list \<Rightarrow> 'a world \<Rightarrow> bool" where
  "undisturbed T a b [] w = True"
| "undisturbed T a b ((first, c) # cs) w =
     (let x = (if first then a else b); y = (if first then b else a) in
      foreign w y c \<and> op_fits T c \<longrightarrow>
        (case run_op T x c w of
           Normal _ w' \<Rightarrow> same w w' y \<and> undisturbed T a b cs w'
         | Throws w' \<Rightarrow> same w w' y \<and> undisturbed T a b cs w'
         | AssertFail \<Rightarrow> True
         | Undefined \<Rightarrow> True))"

section \<open>The frame of an operation\<close>

text \<open>
  \<open>apart this other V0 H0 N\<close> is what an operation on \<open>this\<close> preserves of another
  vector: the object \<open>other\<close> is \<open>V0\<close>, its storage holds \<open>H0\<close> and is not the storage
  of \<open>this\<close>, and both storages lie below the next address the allocator hands
  out, which is at least \<open>N\<close>. \<open>separate\<close> is the part of it that is symmetric in
  the two vectors. \<open>ok_at I Q r\<close>: the outcome \<open>r\<close>, when it is a return or an
  exception, ends in a world that satisfies \<open>I\<close>, with a result that satisfies \<open>Q\<close>.
\<close>

definition below :: "nat \<Rightarrow> addr option \<Rightarrow> bool" where
  "below N a \<longleftrightarrow> (\<forall>c. a = Some c \<longrightarrow> c < N)"

definition apart ::
  "nat \<Rightarrow> nat \<Rightarrow> Vector \<Rightarrow> 'a slot list option \<Rightarrow> nat \<Rightarrow> 'a world \<Rightarrow> bool" where
  "apart this other V0 H0 N w \<longleftrightarrow>
     this \<noteq> other \<and> vectors w other = V0 \<and> N \<le> next_addr w \<and>
     away V0 (buffer_m (data_m (vectors w this))) \<and>
     below (next_addr w) (buffer_m (data_m (vectors w this))) \<and>
     below (next_addr w) (buffer_m (data_m V0)) \<and>
     (\<forall>b. buffer_m (data_m V0) = Some b \<longrightarrow> heap w b = H0)"

definition separate :: "'a world \<Rightarrow> nat \<Rightarrow> nat \<Rightarrow> bool" where
  "separate w a b \<longleftrightarrow>
     a \<noteq> b \<and> away (vectors w b) (buffer_m (data_m (vectors w a))) \<and>
     below (next_addr w) (buffer_m (data_m (vectors w a))) \<and>
     below (next_addr w) (buffer_m (data_m (vectors w b)))"

definition ok_at :: "('w \<Rightarrow> bool) \<Rightarrow> ('r \<Rightarrow> bool) \<Rightarrow> ('r, 'w) outcome \<Rightarrow> bool" where
  "ok_at I Q r = (case r of Normal x w' \<Rightarrow> I w' \<and> Q x | Throws w' \<Rightarrow> I w' | _ \<Rightarrow> True)"

section \<open>Basic facts\<close>

lemmas model_defs =
  ptr_add_def ret_def bnd_def catch_rethrow_def slot_at_def set_slot_def deref_def tick_def
  place_def destroy_at_def value_construct_def copy_construct_def move_construct_def
  copy_assign_def move_assign_def uninitialized_copy_n_def uninitialized_move_n_def
  uninitialized_value_construct_n_def range_length_def std_move_def move_backward_def
  Allocate_def Deallocate_def RawMemory_default_def RawMemory_ctor_def RawMemory_dtor_def
  RawMemory_Swap_def RawMemory_move_ctor_def RawMemory_move_assign_def RawMemory_plus_def
  RawMemory_index_def GetAddress_def set_vector_def set_data_def set_size_def
  Vector_default_def Vector_begin_def Vector_end_def Size_def Capacity_def
  Vector_default_ctor_def Vector_size_ctor_def Vector_copy_ctor_def Vector_dtor_def
  operator_index_def Reserve_def Resize_def EmplaceBack_def PushBack_def PopBack_def
  stack_alloc_def stack_free_def with_local_def ReallocateWithCopy_def ReallocateWithMove_def
  ptr_diff_def Emplace_def Insert_def Erase_def storage_def elements_def invariant_def
  after_def thrown_def Let_def

lemma RawMemory_eta [simp]:
  "\<lparr>buffer_m = buffer_m d, capacity_m = capacity_m d\<rparr> = d"
  by (cases d) simp

lemma Vector_eta [simp]:
  "(v::Vector)\<lparr>data_m := data_m u, size_m := size_m u\<rparr> = u"
  by (cases v, cases u) simp

lemma world_vectors_same [simp]: "w\<lparr>vectors := vectors w\<rparr> = w"
  by (cases w) simp

lemma swap_data_eq:
  "swap_data a b w = Normal () (w\<lparr>vectors := (vectors w)(a := (vectors w a)\<lparr>data_m := data_m (vectors w b)\<rparr>,
       b := (vectors w b)\<lparr>data_m := data_m (vectors w a)\<rparr>)\<rparr>)"
  by (cases "a = b")
   (simp_all add: swap_data_def RawMemory_move_ctor_def bnd_def set_data_def set_vector_def
      RawMemory_move_assign_def Deallocate_def ret_def RawMemory_Swap_def RawMemory_dtor_def)

lemma Swap_eq:
  "Swap a b w = Normal () (w\<lparr>vectors := (vectors w)(a := vectors w b, b := vectors w a)\<rparr>)"
  by (cases "a = b")
   (simp_all add: Swap_def bnd_def swap_data_eq swap_size_def set_size_def set_vector_def)

lemma Vector_move_ctor_eq:
  "this \<noteq> rhs \<Longrightarrow> Vector_move_ctor this rhs w =
     Normal () (w\<lparr>vectors := (vectors w)(this := vectors w rhs, rhs := Vector_default)\<rparr>)"
  by (simp add: Vector_move_ctor_def Vector_default_ctor_def set_vector_def bnd_def Swap_eq)

lemma Vector_move_assign_eq:
  "Vector_move_assign this rhs w =
     Normal () (w\<lparr>vectors := (vectors w)(this := vectors w rhs, rhs := vectors w this)\<rparr>)"
  by (simp add: Vector_move_assign_def Swap_eq)

lemma is_live_iff: "is_live s \<longleftrightarrow> (\<exists>x. s = Obj x)"
  by (cases s) simp_all

lemma all_live_map_Obj: "list_all is_live ss \<Longrightarrow> \<exists>xs. ss = map Obj xs"
proof (induction ss)
  case Nil
  then show ?case by simp
next
  case (Cons s ss)
  then obtain x xs where "s = Obj x" "ss = map Obj xs" by (auto simp: is_live_iff)
  then have "s # ss = map Obj (x # xs)" by simp
  then show ?case by (rule exI [of _ "x # xs"])
qed

lemma all_raw_replicate: "list_all (\<lambda>s. s = Raw) ss \<Longrightarrow> ss = replicate (length ss) Raw"
  by (induction ss) auto

lemma invariant_holds: "invariant w this \<longleftrightarrow> (\<exists>xs k. holds w this xs k)"
proof
  assume inv: "invariant w this"
  show "\<exists>xs k. holds w this xs k"
  proof (cases "buffer_m (data_m (vectors w this))")
    case None
    with inv have "holds w this [] 0" by (simp add: invariant_def holds_def Let_def)
    then show ?thesis by blast
  next
    case (Some a)
    let ?n = "size_m (vectors w this)"
    from inv Some obtain blk where blk: "heap w a = Some blk"
      "length blk = capacity_m (data_m (vectors w this))" "?n \<le> length blk"
      "list_all is_live (take ?n blk)" "list_all (\<lambda>s. s = Raw) (drop ?n blk)"
      by (cases "heap w a") (auto simp: invariant_def Let_def)
    from blk(4) obtain xs where xs: "take ?n blk = map Obj xs" using all_live_map_Obj by blast
    from blk(5) have dr: "drop ?n blk = replicate (length blk - ?n) Raw"
      using all_raw_replicate by fastforce
    have len: "length xs = ?n" using xs blk(3) by (metis length_map length_take min.absorb2)
    have "blk = map Obj xs @ replicate (length blk - ?n) Raw"
      using xs dr by (metis append_take_drop_id)
    with blk Some len have "holds w this xs (length blk - ?n)"
      by (simp add: holds_def)
    then show ?thesis by blast
  qed
next
  assume "\<exists>xs k. holds w this xs k"
  then obtain xs k where "holds w this xs k" by blast
  then show "invariant w this"
    by (cases "buffer_m (data_m (vectors w this))")
      (auto simp: holds_def invariant_def Let_def list_all_iff is_live_iff)
qed

lemma holds_elements: "holds w this xs k \<Longrightarrow> elements w this = map Obj xs"
  by (cases "buffer_m (data_m (vectors w this))")
    (auto simp: holds_def elements_def storage_def Size_def)

lemma holds_Size: "holds w this xs k \<Longrightarrow> Size w this = length xs"
  by (simp add: holds_def Size_def)

lemma holds_Capacity: "holds w this xs k \<Longrightarrow> Capacity w this = length xs + k"
  by (simp add: holds_def Capacity_def)

lemma holds_buffer:
  assumes "holds w this xs k" "0 < length xs + k"
  obtains a where "buffer_m (data_m (vectors w this)) = Some a"
    "heap w a = Some (map Obj xs @ replicate k Raw)"
  using assms by (cases "buffer_m (data_m (vectors w this))") (auto simp: holds_def)

lemma PopBack_holds:
  assumes "holds w this (xs @ [x]) k"
  shows "\<exists>w'. PopBack this w = Normal () w' \<and> holds w' this xs (Suc k) \<and> live w' = live w - 1 \<and>
     storage w' this = (storage w this)[length xs := Raw]"
proof -
  from assms obtain a where a: "buffer_m (data_m (vectors w this)) = Some a"
    "heap w a = Some (map Obj (xs @ [x]) @ replicate k Raw)"
    by (rule holds_buffer) simp
  have sz: "size_m (vectors w this) = Suc (length xs)" using assms by (simp add: holds_def)
  have cap: "capacity_m (data_m (vectors w this)) = Suc (length xs + k)" using assms by (simp add: holds_def)
  let ?w' = "w\<lparr>heap := (heap w)(a \<mapsto> map Obj xs @ replicate (Suc k) Raw), live := live w - 1,
               vectors := (vectors w)(this := (vectors w this)\<lparr>size_m := length xs\<rparr>)\<rparr>"
  have "PopBack this w = Normal () ?w'"
    using a sz
    by (simp add: PopBack_def Let_def bnd_def destroy_at_def slot_at_def set_slot_def
        GetAddress_def ptr_add_def set_size_def set_vector_def nth_append list_update_append)
  moreover have "holds ?w' this xs (Suc k)" using a cap by (simp add: holds_def)
  moreover have "storage ?w' this = (storage w this)[length xs := Raw]"
    using a by (simp add: storage_def list_update_append)
  ultimately show ?thesis by auto
qed

lemma two_vectors_reachable:
  "bnd (PushBack int_type 0 (Make 1)) (\<lambda>_. PushBack int_type 1 (Make 2)) empty_world = Normal () w
   \<Longrightarrow> heap w = heap two_vectors \<and> vectors w = vectors two_vectors \<and> live w = live two_vectors"
  apply (simp add: two_vectors_def empty_world_def int_type_def PushBack_def EmplaceBack_def bnd_def ret_def
     Vector_default_def RawMemory_default_def RawMemory_ctor_def Allocate_def tick_def catch_rethrow_def
     RawMemory_plus_def place_def slot_at_def set_slot_def uninitialized_move_n_def GetAddress_def
     RawMemory_Swap_def set_data_def set_size_def set_vector_def RawMemory_dtor_def Deallocate_def Let_def)
  apply (auto simp: fun_eq_iff)
  done

lemma ptr_add_int [simp]: "ptr_add (b, int i) (int k) = (b, int (i + k))"
  by (simp add: ptr_add_def)

lemma ptr_add_one [simp]: "ptr_add (b, int i) 1 = (b, int (Suc i))"
  by (simp add: ptr_add_def)

lemma ptr_add_zero [simp]: "ptr_add (b, 0) (int k) = (b, int k)"
  by (simp add: ptr_add_def)

lemma no_failure_now: "no_failure T w \<Longrightarrow> \<not> throws T k (calls w k)"
  by (simp add: no_failure_def)

lemma no_failure_mono:
  "no_failure T w \<Longrightarrow> (\<And>k. calls w k \<le> calls w' k) \<Longrightarrow> no_failure T w'"
  unfolding no_failure_def by (meson le_trans)

lemma slot_at_block:
  "heap w a = Some s \<Longrightarrow> i < length s \<Longrightarrow> slot_at w (Some a, int i) = Some (s ! i)"
  by (simp add: slot_at_def)

lemma deref_block:
  "heap w a = Some s \<Longrightarrow> i < length s \<Longrightarrow> s ! i = Obj x \<Longrightarrow> deref w (Some a, int i) = Some x"
  by (simp add: deref_def slot_at_block)

lemma set_slot_block:
  "heap w a = Some s \<Longrightarrow> set_slot (Some a, int i) v w = w\<lparr>heap := (heap w)(a \<mapsto> s[i := v])\<rparr>"
  by (simp add: set_slot_def)

lemma place_block:
  "heap w a = Some s \<Longrightarrow> i < length s \<Longrightarrow>
   place (Some a, int i) x w =
     Normal () (w\<lparr>heap := (heap w)(a \<mapsto> s[i := Obj x]), live := live w + 1\<rparr>)"
  by (simp add: place_def slot_at_block set_slot_block)

lemma destroy_at_block:
  "heap w a = Some s \<Longrightarrow> i < length s \<Longrightarrow> s ! i = Obj x \<Longrightarrow>
   destroy_at (Some a, int i) w =
     Normal () (w\<lparr>heap := (heap w)(a \<mapsto> s[i := Raw]), live := live w - 1\<rparr>)"
  by (simp add: destroy_at_def slot_at_block set_slot_block)

lemma heap_upd_same: "heap w a = Some s \<Longrightarrow> w\<lparr>heap := (heap w)(a \<mapsto> s)\<rparr> = w"
  by (cases w) (auto simp: fun_eq_iff)

lemma destroy_n_block:
  "heap w a = Some (pre @ map Obj ys @ post) \<Longrightarrow>
   destroy_n (Some a, int (length pre)) (length ys) w =
     Normal () (w\<lparr>heap := (heap w)(a \<mapsto> pre @ replicate (length ys) Raw @ post),
                  live := live w - int (length ys)\<rparr>)"
proof (induction ys arbitrary: w pre)
  case Nil
  then show ?case by (cases w) (auto simp: fun_eq_iff)
next
  case (Cons y ys)
  let ?w1 = "w\<lparr>heap := (heap w)(a \<mapsto> (pre @ [Raw]) @ map Obj ys @ post), live := live w - 1\<rparr>"
  have d: "destroy_at (Some a, int (length pre)) w = Normal () ?w1"
    using Cons.prems by (simp add: destroy_at_block [where x = y] nth_append list_update_append)
  have h1: "heap ?w1 a = Some ((pre @ [Raw]) @ map Obj ys @ post)" by simp
  have "destroy_n (Some a, int (length pre)) (length (y # ys)) w =
        destroy_n (Some a, int (length (pre @ [Raw]))) (length ys) ?w1"
    using d by simp
  also have "\<dots> = Normal () (?w1\<lparr>heap := (heap ?w1)(a \<mapsto> (pre @ [Raw]) @ replicate (length ys) Raw @ post),
                  live := live ?w1 - int (length ys)\<rparr>)"
    by (rule Cons.IH [OF h1])
  also have "\<dots> = Normal () (w\<lparr>heap := (heap w)(a \<mapsto> pre @ replicate (length (y # ys)) Raw @ post),
                  live := live w - int (length (y # ys))\<rparr>)"
    by (simp add: diff_diff_eq)
  finally show ?case .
qed

lemma copy_construct_block:
  "heap w a = Some sa \<Longrightarrow> i < length sa \<Longrightarrow> sa ! i = Obj x \<Longrightarrow>
   heap w b = Some sb \<Longrightarrow> j < length sb \<Longrightarrow> \<not> throws T CopyCtor (calls w CopyCtor) \<Longrightarrow>
   copy_construct T (Some b, int j) (Some a, int i) w =
     Normal () (w\<lparr>heap := (heap w)(b \<mapsto> sb[j := Obj x]), live := live w + 1,
                  calls := (calls w)(CopyCtor := Suc (calls w CopyCtor))\<rparr>)"
  by (simp add: copy_construct_def deref_block tick_def place_block)

lemma move_construct_block:
  "a \<noteq> b \<Longrightarrow> heap w a = Some sa \<Longrightarrow> i < length sa \<Longrightarrow> sa ! i = Obj x \<Longrightarrow>
   heap w b = Some sb \<Longrightarrow> j < length sb \<Longrightarrow>
   nothrow_move_constructible T \<or> \<not> throws T MoveCtor (calls w MoveCtor) \<Longrightarrow>
   move_construct T (Some b, int j) (Some a, int i) w =
     Normal () (w\<lparr>heap := (heap w)(b \<mapsto> sb[j := Obj x], a \<mapsto> sa[i := Obj (moved_from T x)]),
                  live := live w + 1,
                  calls := (calls w)(MoveCtor := Suc (calls w MoveCtor))\<rparr>)"
  by (auto simp add: move_construct_def deref_block tick_def place_block bnd_def set_slot_block)

lemma move_construct_same_block:
  "heap w a = Some sa \<Longrightarrow> i < length sa \<Longrightarrow> sa ! i = Obj x \<Longrightarrow> j < length sa \<Longrightarrow>
   nothrow_move_constructible T \<or> \<not> throws T MoveCtor (calls w MoveCtor) \<Longrightarrow>
   move_construct T (Some a, int j) (Some a, int i) w =
     Normal () (w\<lparr>heap := (heap w)(a \<mapsto> sa[j := Obj x, i := Obj (moved_from T x)]),
                  live := live w + 1,
                  calls := (calls w)(MoveCtor := Suc (calls w MoveCtor))\<rparr>)"
  by (auto simp add: move_construct_def deref_block tick_def place_block bnd_def set_slot_block)

lemma move_assign_same_block:
  "heap w a = Some sa \<Longrightarrow> i < length sa \<Longrightarrow> sa ! i = Obj x \<Longrightarrow> j < length sa \<Longrightarrow>
   sa ! j = Obj y \<Longrightarrow> \<not> throws T MoveAssign (calls w MoveAssign) \<Longrightarrow>
   move_assign T (Some a, int j) (Some a, int i) w =
     Normal () (w\<lparr>heap := (heap w)(a \<mapsto> sa[j := Obj x, i := Obj (moved_from T x)]),
                  calls := (calls w)(MoveAssign := Suc (calls w MoveAssign))\<rparr>)"
  by (simp add: move_assign_def deref_block tick_def set_slot_block)

lemma move_assign_block:
  "a \<noteq> b \<Longrightarrow> heap w a = Some sa \<Longrightarrow> i < length sa \<Longrightarrow> sa ! i = Obj x \<Longrightarrow>
   heap w b = Some sb \<Longrightarrow> j < length sb \<Longrightarrow> sb ! j = Obj y \<Longrightarrow>
   \<not> throws T MoveAssign (calls w MoveAssign) \<Longrightarrow>
   move_assign T (Some b, int j) (Some a, int i) w =
     Normal () (w\<lparr>heap := (heap w)(b \<mapsto> sb[j := Obj x], a \<mapsto> sa[i := Obj (moved_from T x)]),
                  calls := (calls w)(MoveAssign := Suc (calls w MoveAssign))\<rparr>)"
  by (simp add: move_assign_def deref_block tick_def set_slot_block)

lemma no_failure_upd [simp]:
  "no_failure T (w\<lparr>heap := h\<rparr>) = no_failure T w"
  "no_failure T (w\<lparr>live := l\<rparr>) = no_failure T w"
  "no_failure T (w\<lparr>vectors := v\<rparr>) = no_failure T w"
  "no_failure T (w\<lparr>next_addr := n\<rparr>) = no_failure T w"
  by (simp_all add: no_failure_def)

lemma no_failure_calls:
  "no_failure T w \<Longrightarrow> no_failure T (w\<lparr>calls := (calls w)(k := Suc (calls w k))\<rparr>)"
  by (auto simp: no_failure_def)

lemma uninitialized_copy_loop_bounded:
  assumes "a \<noteq> b" "\<And>i. i < length ys \<Longrightarrow> \<not> throws T CopyCtor (calls w CopyCtor + i)"
    "heap w a = Some (pa @ map Obj ys @ qa)" "heap w b = Some (pb @ rs @ qb)"
    "length rs = length ys" "length pa = i0 + d" "length pb = j0 + d"
  shows "uninitialized_loop
           (\<lambda>k. copy_construct T (ptr_add (Some b, int j0) (int k)) (ptr_add (Some a, int i0) (int k)))
           d_first d (length ys) w =
         Normal () (w\<lparr>heap := (heap w)(b \<mapsto> pb @ map Obj ys @ qb),
                      live := live w + int (length ys),
                      calls := (calls w)(CopyCtor := calls w CopyCtor + length ys)\<rparr>)"
  using assms
proof (induction ys arbitrary: w pa pb rs d)
  case Nil
  then show ?case by (cases w) (auto simp: fun_eq_iff)
next
  case (Cons y ys)
  from Cons.prems(5) obtain r rs' where rs: "rs = r # rs'" "length rs' = length ys"
    by (cases rs) auto
  let ?step = "\<lambda>k. copy_construct T (ptr_add (Some b, int j0) (int k)) (ptr_add (Some a, int i0) (int k))"
  let ?w1 = "w\<lparr>heap := (heap w)(b \<mapsto> (pb @ [Obj y]) @ rs' @ qb), live := live w + 1,
               calls := (calls w)(CopyCtor := Suc (calls w CopyCtor))\<rparr>"
  have now: "\<not> throws T CopyCtor (calls w CopyCtor)"
    using Cons.prems(2) [of 0] by simp
  have "?step d w = copy_construct T (Some b, int (length pb)) (Some a, int (length pa)) w"
    using Cons.prems(6,7) by (simp add: ptr_add_def)
  also have "\<dots> = Normal () ?w1"
    using Cons.prems(3,4) rs now
    by (subst copy_construct_block [where sa = "pa @ map Obj (y # ys) @ qa" and x = y
          and sb = "pb @ rs @ qb"]) (simp_all add: nth_append list_update_append)
  finally have c: "?step d w = Normal () ?w1" .
  have p1: "\<not> throws T CopyCtor (calls ?w1 CopyCtor + i)" if "i < length ys" for i
    using Cons.prems(2) [of "Suc i"] that by simp
  have p2: "heap ?w1 a = Some ((pa @ [Obj y]) @ map Obj ys @ qa)"
    using Cons.prems(1,3) by simp
  have p3: "heap ?w1 b = Some ((pb @ [Obj y]) @ rs' @ qb)" by simp
  have "uninitialized_loop ?step d_first d (length (y # ys)) w =
        uninitialized_loop ?step d_first (Suc d) (length ys) ?w1"
    using c by simp
  also have "\<dots> = Normal () (?w1\<lparr>heap := (heap ?w1)(b \<mapsto> (pb @ [Obj y]) @ map Obj ys @ qb),
                      live := live ?w1 + int (length ys),
                      calls := (calls ?w1)(CopyCtor := calls ?w1 CopyCtor + length ys)\<rparr>)"
    using Cons.prems(6,7) by (intro Cons.IH [OF Cons.prems(1) p1 p2 p3 rs(2)]) simp_all
  also have "\<dots> = Normal () (w\<lparr>heap := (heap w)(b \<mapsto> pb @ map Obj (y # ys) @ qb),
                      live := live w + int (length (y # ys)),
                      calls := (calls w)(CopyCtor := calls w CopyCtor + length (y # ys))\<rparr>)"
    by (simp add: add.assoc)
  finally show ?case .
qed

lemma uninitialized_copy_loop_block:
  assumes "a \<noteq> b" "no_failure T w"
    "heap w a = Some (pa @ map Obj ys @ qa)" "heap w b = Some (pb @ rs @ qb)"
    "length rs = length ys" "length pa = i0 + d" "length pb = j0 + d"
  shows "uninitialized_loop
           (\<lambda>k. copy_construct T (ptr_add (Some b, int j0) (int k)) (ptr_add (Some a, int i0) (int k)))
           d_first d (length ys) w =
         Normal () (w\<lparr>heap := (heap w)(b \<mapsto> pb @ map Obj ys @ qb),
                      live := live w + int (length ys),
                      calls := (calls w)(CopyCtor := calls w CopyCtor + length ys)\<rparr>)"
  using assms(2)
  by (intro uninitialized_copy_loop_bounded [OF assms(1) _ assms(3-7)]) (simp add: no_failure_def)

lemma uninitialized_copy_n_block:
  assumes "a \<noteq> b" "no_failure T w"
    "heap w a = Some (pa @ map Obj ys @ qa)" "heap w b = Some (pb @ rs @ qb)"
    "length rs = length ys"
  shows "uninitialized_copy_n T (Some a, int (length pa)) (length ys) (Some b, int (length pb)) w =
         Normal () (w\<lparr>heap := (heap w)(b \<mapsto> pb @ map Obj ys @ qb),
                      live := live w + int (length ys),
                      calls := (calls w)(CopyCtor := calls w CopyCtor + length ys)\<rparr>)"
  unfolding uninitialized_copy_n_def
  using assms by (intro uninitialized_copy_loop_block [where rs = rs and pa = pa and qa = qa]) simp_all

lemma fun_upd_overwrite2:
  "a \<noteq> b \<Longrightarrow> f(b := x1, a := y1, b := x2, a := y2) = f(b := x2, a := y2)"
  by (auto simp: fun_eq_iff)

lemma uninitialized_move_loop_block:
  assumes "a \<noteq> b" "no_failure T w"
    "heap w a = Some (pa @ map Obj ys @ qa)" "heap w b = Some (pb @ rs @ qb)"
    "length rs = length ys" "length pa = i0 + d" "length pb = j0 + d"
  shows "uninitialized_loop
           (\<lambda>k. move_construct T (ptr_add (Some b, int j0) (int k)) (ptr_add (Some a, int i0) (int k)))
           d_first d (length ys) w =
         Normal () (w\<lparr>heap := (heap w)(b \<mapsto> pb @ map Obj ys @ qb,
                                          a \<mapsto> pa @ map (\<lambda>y. Obj (moved_from T y)) ys @ qa),
                      live := live w + int (length ys),
                      calls := (calls w)(MoveCtor := calls w MoveCtor + length ys)\<rparr>)"
  using assms
proof (induction ys arbitrary: w pa pb rs d)
  case Nil
  then show ?case by (cases w) (auto simp: fun_eq_iff)
next
  case (Cons y ys)
  from Cons.prems(5) obtain r rs' where rs: "rs = r # rs'" "length rs' = length ys"
    by (cases rs) auto
  let ?step = "\<lambda>k. move_construct T (ptr_add (Some b, int j0) (int k)) (ptr_add (Some a, int i0) (int k))"
  let ?w1 = "w\<lparr>heap := (heap w)(b \<mapsto> (pb @ [Obj y]) @ rs' @ qb,
                                 a \<mapsto> (pa @ [Obj (moved_from T y)]) @ map Obj ys @ qa),
               live := live w + 1,
               calls := (calls w)(MoveCtor := Suc (calls w MoveCtor))\<rparr>"
  have "?step d w = move_construct T (Some b, int (length pb)) (Some a, int (length pa)) w"
    using Cons.prems(6,7) by (simp add: ptr_add_def)
  also have "\<dots> = Normal () ?w1"
    using Cons.prems(1,2,3,4) rs
    by (subst move_construct_block [where sa = "pa @ map Obj (y # ys) @ qa" and x = y
          and sb = "pb @ rs @ qb"]) (simp_all add: no_failure_now nth_append list_update_append)
  finally have c: "?step d w = Normal () ?w1" .
  have p1: "no_failure T ?w1" by (rule no_failure_mono [OF Cons.prems(2)]) simp
  have p2: "heap ?w1 a = Some ((pa @ [Obj (moved_from T y)]) @ map Obj ys @ qa)"
    by simp
  have p3: "heap ?w1 b = Some ((pb @ [Obj y]) @ rs' @ qb)" using Cons.prems(1) by simp
  have "uninitialized_loop ?step d_first d (length (y # ys)) w =
        uninitialized_loop ?step d_first (Suc d) (length ys) ?w1"
    using c by simp
  also have "\<dots> = Normal () (?w1\<lparr>heap := (heap ?w1)(b \<mapsto> (pb @ [Obj y]) @ map Obj ys @ qb,
                          a \<mapsto> (pa @ [Obj (moved_from T y)]) @ map (\<lambda>y. Obj (moved_from T y)) ys @ qa),
                      live := live ?w1 + int (length ys),
                      calls := (calls ?w1)(MoveCtor := calls ?w1 MoveCtor + length ys)\<rparr>)"
    using Cons.prems(6,7) by (intro Cons.IH [OF Cons.prems(1) p1 p2 p3 rs(2)]) simp_all
  also have "\<dots> = Normal () (w\<lparr>heap := (heap w)(b \<mapsto> pb @ map Obj (y # ys) @ qb,
                                          a \<mapsto> pa @ map (\<lambda>y. Obj (moved_from T y)) (y # ys) @ qa),
                      live := live w + int (length (y # ys)),
                      calls := (calls w)(MoveCtor := calls w MoveCtor + length (y # ys))\<rparr>)"
    using Cons.prems(1) by (simp add: add.assoc fun_upd_overwrite2)
  finally show ?case .
qed

lemma uninitialized_move_n_block:
  assumes "a \<noteq> b" "no_failure T w"
    "heap w a = Some (pa @ map Obj ys @ qa)" "heap w b = Some (pb @ rs @ qb)"
    "length rs = length ys"
  shows "uninitialized_move_n T (Some a, int (length pa)) (length ys) (Some b, int (length pb)) w =
         Normal () (w\<lparr>heap := (heap w)(b \<mapsto> pb @ map Obj ys @ qb,
                                          a \<mapsto> pa @ map (\<lambda>y. Obj (moved_from T y)) ys @ qa),
                      live := live w + int (length ys),
                      calls := (calls w)(MoveCtor := calls w MoveCtor + length ys)\<rparr>)"
  unfolding uninitialized_move_n_def
  using assms by (intro uninitialized_move_loop_block [where rs = rs]) simp_all

lemma move_backward_loop_block:
  assumes "no_failure T w" "heap w a = Some (pre @ map Obj ys @ [Obj z] @ post)"
  shows "move_backward_loop T (Some a, int (length pre + length ys))
           (Some a, int (length pre + length ys + 1)) (length ys) w =
         Normal () (w\<lparr>heap := (heap w)(a \<mapsto> pre @
                        (case ys of [] \<Rightarrow> [Obj z] | y # _ \<Rightarrow> Obj (moved_from T y) # map Obj ys) @ post),
                      calls := (calls w)(MoveAssign := calls w MoveAssign + length ys)\<rparr>)"
  using assms
proof (induction ys arbitrary: w z post rule: rev_induct)
  case Nil
  then show ?case by (cases w) (auto simp: fun_eq_iff)
next
  case (snoc y ys)
  let ?n = "length pre + length ys"
  let ?s = "pre @ map Obj (ys @ [y]) @ [Obj z] @ post"
  let ?w1 = "w\<lparr>heap := (heap w)(a \<mapsto> pre @ map Obj ys @ [Obj (moved_from T y)] @ (Obj y # post)),
               calls := (calls w)(MoveAssign := Suc (calls w MoveAssign))\<rparr>"
  have "move_assign T (ptr_add (Some a, int (length pre + length (ys @ [y]) + 1)) (- 1))
          (ptr_add (Some a, int (length pre + length (ys @ [y]))) (- 1)) w =
        move_assign T (Some a, int (Suc ?n)) (Some a, int ?n) w"
    by (simp add: ptr_add_def)
  also have "\<dots> = Normal () ?w1"
    using snoc.prems
    by (subst move_assign_same_block [where sa = ?s and x = y and y = z])
      (simp_all add: no_failure_now nth_append list_update_append)
  finally have c: "move_assign T (ptr_add (Some a, int (length pre + length (ys @ [y]) + 1)) (- 1))
          (ptr_add (Some a, int (length pre + length (ys @ [y]))) (- 1)) w = Normal () ?w1" .
  have p1: "no_failure T ?w1" by (rule no_failure_mono [OF snoc.prems(1)]) simp
  have p2: "heap ?w1 a = Some (pre @ map Obj ys @ [Obj (moved_from T y)] @ (Obj y # post))"
    by simp
  have pt: "ptr_add (Some a, int (length pre + length (ys @ [y]))) (- 1) = (Some a, int ?n)"
    "ptr_add (Some a, int (length pre + length (ys @ [y]) + 1)) (- 1) = (Some a, int (?n + 1))"
    by (simp_all add: ptr_add_def)
  have "move_backward_loop T (Some a, int (length pre + length (ys @ [y])))
           (Some a, int (length pre + length (ys @ [y]) + 1)) (length (ys @ [y])) w =
        move_backward_loop T (Some a, int ?n) (Some a, int (?n + 1)) (length ys) ?w1"
    using c by (simp add: ptr_add_def)
  also have "\<dots> = Normal () (?w1\<lparr>heap := (heap ?w1)(a \<mapsto> pre @
                        (case ys of [] \<Rightarrow> [Obj (moved_from T y)] | y' # _ \<Rightarrow> Obj (moved_from T y') # map Obj ys)
                        @ (Obj y # post)),
                      calls := (calls ?w1)(MoveAssign := calls ?w1 MoveAssign + length ys)\<rparr>)"
    by (rule snoc.IH [OF p1 p2])
  also have "\<dots> = Normal () (w\<lparr>heap := (heap w)(a \<mapsto> pre @
                        (case ys @ [y] of [] \<Rightarrow> [Obj z] | y' # _ \<Rightarrow> Obj (moved_from T y') # map Obj (ys @ [y])) @ post),
                      calls := (calls w)(MoveAssign := calls w MoveAssign + length (ys @ [y]))\<rparr>)"
    by (cases ys) simp_all
  finally show ?case .
qed

lemma arg_effect_fields [simp]:
  "vectors (arg_effect T args w) = vectors w"
  "next_addr (arg_effect T args w) = next_addr w"
  "live (arg_effect T args w) = live w"
  "calls (arg_effect T args w) k = calls w k + arg_calls args k"
  by (auto simp: arg_effect_def arg_calls_def tick_def set_slot_def split: arg.splits option.splits)

lemma arg_effect_heap:
  "moved_block args \<noteq> Some c \<Longrightarrow> heap (arg_effect T args w) c = heap w c"
  by (auto simp: arg_effect_def moved_block_def tick_def set_slot_def split: arg.splits option.splits)

lemma arg_effect_heap_None:
  "heap (arg_effect T args w) c = None \<longleftrightarrow> heap w c = None"
  by (auto simp: arg_effect_def tick_def set_slot_def split: arg.splits option.splits)

lemma arg_effect_wf: "wf_world w \<Longrightarrow> wf_world (arg_effect T args w)"
  by (simp add: wf_world_def arg_effect_heap_None)

lemma arg_effect_no_failure: "no_failure T' w \<Longrightarrow> no_failure T' (arg_effect T args w)"
  by (erule no_failure_mono) simp

lemma deref_allocated: "deref w (c, i) = Some x \<Longrightarrow> \<exists>a. c = Some a \<and> heap w a \<noteq> None"
  by (auto simp: deref_def slot_at_def split: option.splits)

lemma wf_world_allocated: "wf_world w \<Longrightarrow> heap w a = Some s \<Longrightarrow> a < next_addr w"
  by (metis wf_world_def not_le option.distinct(1))

lemma moved_block_allocated:
  "wf_world w \<Longrightarrow> arg_value w args = Some x \<Longrightarrow> moved_block args = Some c \<Longrightarrow> c < next_addr w"
  by (cases args) (auto simp: arg_value_def moved_block_def dest!: deref_allocated wf_world_allocated)

lemma construct_block:
  assumes "heap w b = Some sb" "j < length sb" "arg_value w args = Some x" "no_failure T w"
    "moved_block args \<noteq> Some b"
  shows "construct T (Some b, int j) args w =
     Normal () ((arg_effect T args w)\<lparr>heap := (heap (arg_effect T args w))(b \<mapsto> sb[j := Obj x]),
                  live := live w + 1\<rparr>)"
proof (cases args)
  case (CopyOf q)
  with assms show ?thesis
    by (simp add: arg_value_def arg_effect_def copy_construct_def no_failure_now tick_def place_block)
next
  case (MoveOf q)
  obtain c i where q: "q = (c, i)" by (cases q)
  with assms MoveOf obtain a where a: "c = Some a" "heap w a \<noteq> None" "a \<noteq> b"
    by (auto simp: arg_value_def moved_block_def dest: deref_allocated)
  then obtain sa where sa: "heap w a = Some sa" by blast
  from assms MoveOf q a sa show ?thesis
    by (auto simp: arg_value_def arg_effect_def move_construct_def no_failure_now tick_def
        place_block bnd_def set_slot_def deref_def slot_at_def fun_upd_twist
        split: option.splits slot.splits if_splits)
next
  case (Make y)
  with assms show ?thesis
    by (simp add: arg_value_def arg_effect_def no_failure_now tick_def place_block)
qed

lemma holds_spare_buffer:
  assumes "holds w this xs k" "0 < k"
  obtains a where "buffer_m (data_m (vectors w this)) = Some a"
    "heap w a = Some (map Obj xs @ replicate k Raw)"
  using assms by (cases "buffer_m (data_m (vectors w this))") (auto simp: holds_def)

lemma wf_world_upd [simp]:
  "wf_world (w\<lparr>live := l\<rparr>) = wf_world w"
  "wf_world (w\<lparr>vectors := v\<rparr>) = wf_world w"
  "wf_world (w\<lparr>calls := c\<rparr>) = wf_world w"
  by (simp_all add: wf_world_def)

lemma wf_world_heap_upd:
  "wf_world w \<Longrightarrow> a < next_addr w \<Longrightarrow> wf_world (w\<lparr>heap := (heap w)(a := v)\<rparr>)"
  by (auto simp: wf_world_def)

lemma EmplaceBack_spare:
  assumes wf: "wf_world w" and h: "holds w this xs (Suc k)" and nf: "no_failure T w"
    and av: "arg_value w args = Some x"
    and mb: "moved_block args \<noteq> buffer_m (data_m (vectors w this))"
  shows "\<exists>w'. EmplaceBack T this args w =
              Normal (buffer_m (data_m (vectors w this)), int (length xs)) w' \<and>
           holds w' this (xs @ [x]) k \<and> wf_world w' \<and> live w' = live w + 1 \<and>
           data_m (vectors w' this) = data_m (vectors w this) \<and>
           next_addr w' = next_addr w \<and>
           (\<forall>\<kappa>. calls w' \<kappa> = calls w \<kappa> + arg_calls args \<kappa>)"
proof -
  from h obtain a where a: "buffer_m (data_m (vectors w this)) = Some a"
    "heap w a = Some (map Obj xs @ replicate (Suc k) Raw)"
    by (rule holds_spare_buffer) simp
  let ?v = "vectors w this"
  let ?n = "length xs"
  have sz: "size_m ?v = ?n" "capacity_m (data_m ?v) = ?n + Suc k"
    using h by (simp_all add: holds_def)
  let ?E = "arg_effect T args w"
  let ?w1 = "?E\<lparr>heap := (heap ?E)(a \<mapsto> map Obj (xs @ [x]) @ replicate k Raw), live := live w + 1\<rparr>"
  let ?w' = "?w1\<lparr>vectors := (vectors ?w1)(this := ?v\<lparr>size_m := ?n + 1\<rparr>)\<rparr>"
  have c: "construct T (Some a, int ?n) args w = Normal () ?w1"
    using a mb by (subst construct_block [OF a(2) _ av nf])
      (simp_all add: list_update_append replicate_app_Cons_same)
  have eb: "EmplaceBack T this args w = Normal (Some a, int ?n) ?w'"
    using a sz c
    by (simp add: EmplaceBack_def Let_def bnd_def RawMemory_plus_def ret_def set_size_def set_vector_def)
  have "holds ?w' this (xs @ [x]) k"
    using a sz by (simp add: holds_def)
  moreover have "wf_world ?w'"
    using wf a by (simp add: wf_world_def arg_effect_heap_None) (metis option.distinct(1))
  ultimately show ?thesis
    using eb a by (intro exI [of _ ?w']) simp
qed

lemma length_residue [simp]: "length (residue T ys) = length ys"
  by (simp add: residue_def)

lemma residue_append: "residue T (ys @ zs) = residue T ys @ residue T zs"
  by (simp add: residue_def)

lemma transfer_move_block:
  assumes "moves T" "a \<noteq> b" "no_failure T w"
    "heap w a = Some (pa @ map Obj ys @ qa)" "heap w b = Some (pb @ rs @ qb)"
    "length rs = length ys"
  shows "uninitialized_move_n T (Some a, int (length pa)) (length ys) (Some b, int (length pb)) w =
         Normal () (w\<lparr>heap := (heap w)(b \<mapsto> pb @ map Obj ys @ qb,
                                          a \<mapsto> pa @ map Obj (residue T ys) @ qa),
                      live := live w + int (length ys),
                      calls := (calls w)(transfer_ctor T := calls w (transfer_ctor T) + length ys)\<rparr>)"
  using assms
  by (subst uninitialized_move_n_block [where rs = rs and pa = pa and qa = qa and pb = pb and qb = qb])
    (simp_all add: residue_def transfer_ctor_def comp_def)

lemma heap_upd_same2:
  "a \<noteq> b \<Longrightarrow> h a = Some s \<Longrightarrow> h(b \<mapsto> t, a \<mapsto> s) = h(b \<mapsto> t)"
  by (auto simp: fun_eq_iff)

lemma transfer_copy_block:
  assumes "\<not> moves T" "a \<noteq> b" "no_failure T w"
    "heap w a = Some (pa @ map Obj ys @ qa)" "heap w b = Some (pb @ rs @ qb)"
    "length rs = length ys"
  shows "uninitialized_copy_n T (Some a, int (length pa)) (length ys) (Some b, int (length pb)) w =
         Normal () (w\<lparr>heap := (heap w)(b \<mapsto> pb @ map Obj ys @ qb,
                                          a \<mapsto> pa @ map Obj (residue T ys) @ qa),
                      live := live w + int (length ys),
                      calls := (calls w)(transfer_ctor T := calls w (transfer_ctor T) + length ys)\<rparr>)"
  using assms
  by (subst uninitialized_copy_n_block [where rs = rs and pa = pa and qa = qa and pb = pb and qb = qb])
    (simp_all add: residue_def transfer_ctor_def heap_upd_same2)

lemma Vector_upd_all [simp]:
  "(v::Vector)\<lparr>data_m := d, size_m := n\<rparr> = \<lparr>data_m = d, size_m = n\<rparr>"
  by (cases v) simp

lemma bnd_NormalI: "m w = Normal x w1 \<Longrightarrow> f x w1 = r \<Longrightarrow> bnd m f w = r"
  by (simp add: bnd_def)

lemma catch_NormalI: "m w = Normal x w1 \<Longrightarrow> catch_rethrow m c w = Normal x w1"
  by (simp add: catch_rethrow_def)

lemma ret_Normal: "ret x w = Normal x w"
  by (simp add: ret_def)

lemma set_data_Normal:
  "set_data this d w = Normal () (w\<lparr>vectors := (vectors w)(this := (vectors w this)\<lparr>data_m := d\<rparr>)\<rparr>)"
  by (simp add: set_data_def set_vector_def)

lemma set_size_Normal:
  "set_size this n w = Normal () (w\<lparr>vectors := (vectors w)(this := (vectors w this)\<lparr>size_m := n\<rparr>)\<rparr>)"
  by (simp add: set_size_def set_vector_def)

lemma Deallocate_block:
  "heap w a = Some s \<Longrightarrow> Deallocate (Some a) w = Normal () (w\<lparr>heap := (heap w)(a := None)\<rparr>)"
  by (simp add: Deallocate_def)

lemma replicate_update:
  "n < c \<Longrightarrow> (replicate c v)[n := u] = replicate n v @ u # replicate (c - n - 1) v"
proof (induction n arbitrary: c)
  case 0
  then show ?case by (cases c) simp_all
next
  case (Suc n)
  then show ?case by (cases c) simp_all
qed

lemma RawMemory_ctor_block:
  "0 < c \<Longrightarrow> no_failure T w \<Longrightarrow>
   RawMemory_ctor T c w =
     Normal \<lparr>buffer_m = Some (next_addr w), capacity_m = c\<rparr>
       (w\<lparr>heap := (heap w)(next_addr w \<mapsto> replicate c Raw), next_addr := Suc (next_addr w),
          calls := (calls w)(OperatorNew := Suc (calls w OperatorNew))\<rparr>)"
  by (simp add: RawMemory_ctor_def Allocate_def bnd_def ret_def no_failure_now tick_def)

lemma deref_frame:
  "deref w q = Some x \<Longrightarrow> (\<And>c. heap w c \<noteq> None \<Longrightarrow> heap w' c = heap w c) \<Longrightarrow>
   deref w' q = Some x"
  by (cases q) (auto simp: deref_def slot_at_def split: option.splits slot.splits if_splits)

lemma arg_value_frame:
  "arg_value w args = Some x \<Longrightarrow> (\<And>c. heap w c \<noteq> None \<Longrightarrow> heap w' c = heap w c) \<Longrightarrow>
   arg_value w' args = Some x"
  by (cases args) (auto simp: arg_value_def intro: deref_frame)

lemma wf_world_fresh: "wf_world w \<Longrightarrow> heap w (next_addr w) = None"
  by (simp add: wf_world_def)

lemma EmplaceBack_grow:
  assumes wf: "wf_world w" and h: "holds w this xs 0" and nf: "no_failure T w"
    and av: "arg_value w args = Some x"
    and mb: "moved_block args \<noteq> buffer_m (data_m (vectors w this)) \<or> xs = []"
  shows "\<exists>w'. EmplaceBack T this args w = Normal (Some (next_addr w), int (length xs)) w' \<and>
           holds w' this (xs @ [x]) (max 1 (2 * length xs) - length xs - 1) \<and> wf_world w' \<and>
           live w' = live w + 1 \<and>
           buffer_m (data_m (vectors w' this)) = Some (next_addr w) \<and>
           next_addr w' = Suc (next_addr w) \<and>
           (\<forall>\<kappa>. calls w' \<kappa> = calls w \<kappa> + arg_calls args \<kappa> +
              (if \<kappa> = OperatorNew then 1 else 0) +
              (if \<kappa> = transfer_ctor T then length xs else 0))"
proof -
  let ?v = "vectors w this"
  let ?n = "length xs"
  let ?b = "next_addr w"
  let ?c = "if ?n = 0 then 1 else ?n * 2"
  let ?buf = "buffer_m (data_m ?v)"
  have sz: "size_m ?v = ?n" "capacity_m (data_m ?v) = ?n"
    using h by (simp_all add: holds_def)
  let ?w0 = "w\<lparr>heap := (heap w)(?b \<mapsto> replicate ?c Raw), next_addr := Suc ?b,
          calls := (calls w)(OperatorNew := Suc (calls w OperatorNew))\<rparr>"
  let ?nd = "\<lparr>buffer_m = Some ?b, capacity_m = ?c\<rparr>"
  have alloc: "RawMemory_ctor T ?c w = Normal ?nd ?w0"
    using nf by (intro RawMemory_ctor_block) simp_all
  have fresh: "heap w ?b = None" using wf by (rule wf_world_fresh)
  have nf0: "no_failure T ?w0" by (rule no_failure_mono [OF nf]) simp
  have av0: "arg_value ?w0 args = Some x"
    using fresh by (intro arg_value_frame [OF av]) auto
  have mbb: "moved_block args \<noteq> Some ?b"
    using moved_block_allocated [OF wf av] by auto
  let ?E = "arg_effect T args ?w0"
  let ?sb = "replicate ?n Raw @ Obj x # replicate (?c - ?n - 1) Raw"
  have sb: "(replicate ?c Raw)[?n := Obj x] = ?sb"
    by (rule replicate_update) simp
  let ?w1 = "?E\<lparr>heap := (heap ?E)(?b \<mapsto> ?sb), live := live w + 1\<rparr>"
  have c1: "construct T (Some ?b, int ?n) args ?w0 = Normal () ?w1"
    using mbb sb by (subst construct_block [OF _ _ av0 nf0]) auto
  have nf1: "no_failure T ?w1" by (rule no_failure_mono [OF nf]) simp
  have hb1: "heap ?w1 ?b = Some ([] @ replicate ?n Raw @ (Obj x # replicate (?c - ?n - 1) Raw))"
    by simp
  let ?xfer = "if nothrow_move_constructible T \<or> \<not> copy_constructible T
               then uninitialized_move_n T (GetAddress (data_m ?v)) (size_m ?v) (GetAddress ?nd)
               else catch_rethrow
                      (uninitialized_copy_n T (GetAddress (data_m ?v)) (size_m ?v) (GetAddress ?nd))
                      (destroy_n (ptr_add (GetAddress ?nd) (int (size_m ?v))) 1)"
  let ?newblk = "map Obj (xs @ [x]) @ replicate (?c - ?n - 1) Raw"
  let ?tail = "\<lambda>res. case RawMemory_Swap (data_m ?v) ?nd of (d, new_data') \<Rightarrow>
          bnd (set_data this d) (\<lambda>_.
          bnd (set_size this (size_m ?v + 1)) (\<lambda>_.
          bnd (RawMemory_dtor new_data') (\<lambda>_. ret res)))"
  show ?thesis
  proof (cases "xs = []")
    case True
    have x0: "?xfer ?w1 = Normal () ?w1"
      using True sz by (simp add: uninitialized_move_n_def uninitialized_copy_n_def catch_rethrow_def)
    have d0: "destroy_n (GetAddress (data_m ?v)) (size_m ?v) ?w1 = Normal () ?w1"
      using True sz by simp
    have hbuf: "?buf = None \<or> (\<exists>a. ?buf = Some a \<and> heap w a = Some [])"
      using h True by (cases ?buf) (auto simp: holds_def)
    let ?w2 = "?w1\<lparr>vectors := (vectors w)(this := \<lparr>data_m = ?nd, size_m = 1\<rparr>)\<rparr>"
    obtain w' where w': "Deallocate ?buf ?w2 = Normal () w'" "live w' = live ?w2"
      "vectors w' = vectors ?w2" "next_addr w' = next_addr ?w2" "calls w' = calls ?w2"
      "heap w' ?b = heap ?w2 ?b" "\<And>c. heap ?w2 c = None \<Longrightarrow> heap w' c = None"
    proof (cases ?buf)
      case None
      then show ?thesis using that [of ?w2] by (simp add: Deallocate_def)
    next
      case (Some a)
      with hbuf have ha: "heap w a = Some []" by simp
      with fresh have ab: "a \<noteq> ?b" by auto
      have "moved_block args \<noteq> Some a"
      proof
        assume m: "moved_block args = Some a"
        then obtain q where q: "args = MoveOf q" "fst q = Some a"
          by (cases args) (auto simp: moved_block_def)
        with av have "deref w q = Some x" by (simp add: arg_value_def)
        with q ha show False
          by (cases q) (auto simp: deref_def slot_at_def split: if_splits)
      qed
      then have "heap ?E a = Some []" using ha ab by (simp add: arg_effect_heap)
      with Some ab show ?thesis
        using that [of "?w2\<lparr>heap := (heap ?w2)(a := None)\<rparr>"] by (simp add: Deallocate_def)
    qed
    have eb: "EmplaceBack T this args w = Normal (Some ?b, int ?n) w'"
      using True sz alloc c1 w'(1)
      by (simp add: EmplaceBack_def Let_def bnd_def catch_rethrow_def RawMemory_plus_def ret_def
          RawMemory_Swap_def set_data_def set_size_def set_vector_def RawMemory_dtor_def
          uninitialized_move_n_def uninitialized_copy_n_def)
    have "holds w' this (xs @ [x]) (max 1 (2 * length xs) - length xs - 1)"
      using True w' by (simp add: holds_def)
    moreover have "wf_world w'"
      using wf w' by (auto simp: wf_world_def arg_effect_heap_None)
    ultimately show ?thesis
      using eb w' True by (intro exI [of _ w']) (simp add: transfer_ctor_def)
  next
    case False
    then have npos: "0 < ?n" by simp
    from h npos obtain a where a: "?buf = Some a" "heap w a = Some (map Obj xs)"
      by (cases ?buf) (auto simp: holds_def)
    from a fresh have ab: "a \<noteq> ?b" by auto
    from mb False a have mba: "moved_block args \<noteq> Some a" by simp
    have ha1: "heap ?w1 a = Some ([] @ map Obj xs @ [])"
      using a ab mba by (simp add: arg_effect_heap)
    let ?w2 = "?w1\<lparr>heap := (heap ?w1)(?b \<mapsto> [] @ map Obj xs @ (Obj x # replicate (?c - ?n - 1) Raw),
                                          a \<mapsto> [] @ map Obj (residue T xs) @ []),
                      live := live ?w1 + int ?n,
                      calls := (calls ?w1)(transfer_ctor T := calls ?w1 (transfer_ctor T) + ?n)\<rparr>"
    have x0: "?xfer ?w1 = Normal () ?w2"
    proof (cases "moves T")
      case True
      have "uninitialized_move_n T (Some a, int (length ([]::'a slot list))) ?n
              (Some ?b, int (length ([]::'a slot list))) ?w1 = Normal () ?w2"
        by (rule transfer_move_block [OF True ab nf1 ha1 hb1]) simp
      with True a sz show ?thesis by (simp add: moves_def GetAddress_def)
    next
      case nm: False
      have "uninitialized_copy_n T (Some a, int (length ([]::'a slot list))) ?n
              (Some ?b, int (length ([]::'a slot list))) ?w1 = Normal () ?w2"
        by (rule transfer_copy_block [OF nm ab nf1 ha1 hb1]) simp
      with nm a sz show ?thesis by (simp add: moves_def GetAddress_def catch_rethrow_def)
    qed
    have ha2: "heap ?w2 a = Some ([] @ map Obj (residue T xs) @ [])" by simp
    let ?w3 = "?w2\<lparr>heap := (heap ?w2)(a \<mapsto> [] @ replicate (length (residue T xs)) Raw @ []),
                  live := live ?w2 - int (length (residue T xs))\<rparr>"
    have "destroy_n (Some a, int (length ([]::'a slot list))) (length (residue T xs)) ?w2 = Normal () ?w3"
      by (rule destroy_n_block [OF ha2])
    then have d0: "destroy_n (GetAddress (data_m ?v)) (size_m ?v) ?w2 = Normal () ?w3"
      using a sz by (simp add: GetAddress_def)
    let ?w' = "?E\<lparr>heap := (heap ?E)(?b \<mapsto> ?newblk, a := None), live := live w + 1,
                 calls := (calls ?E)(transfer_ctor T := calls ?E (transfer_ctor T) + ?n),
                 vectors := (vectors w)(this := \<lparr>data_m = ?nd, size_m = ?n + 1\<rparr>)\<rparr>"
    have ncond: "\<not> size_m ?v < capacity_m (data_m ?v)" using sz by simp
    have c_eq: "(if size_m ?v = 0 then 1 else size_m ?v * 2) = ?c" using sz by simp
    have plus: "RawMemory_plus ?nd (size_m ?v) ?w0 = Normal (Some ?b, int ?n) ?w0"
      using sz by (simp add: RawMemory_plus_def)
    have x0': "(if nothrow_move_constructible T \<or> \<not> copy_constructible T
               then uninitialized_move_n T (GetAddress (data_m ?v)) (size_m ?v) (GetAddress ?nd)
               else catch_rethrow
                      (uninitialized_copy_n T (GetAddress (data_m ?v)) (size_m ?v) (GetAddress ?nd))
                      (destroy_n (ptr_add (GetAddress ?nd) (int (size_m ?v))) 1)) ?w1 = Normal () ?w2"
      by (rule x0)
    have dealloc: "RawMemory_dtor (data_m ?v)
        (?w3\<lparr>vectors := (vectors ?w3)(this := (vectors ?w3 this)\<lparr>data_m := ?nd\<rparr>)\<rparr>
            \<lparr>vectors := (vectors (?w3\<lparr>vectors := (vectors ?w3)(this := (vectors ?w3 this)\<lparr>data_m := ?nd\<rparr>)\<rparr>))
               (this := (vectors (?w3\<lparr>vectors := (vectors ?w3)(this := (vectors ?w3 this)\<lparr>data_m := ?nd\<rparr>)\<rparr>) this)
                  \<lparr>size_m := size_m ?v + 1\<rparr>)\<rparr>) = Normal () ?w'"
      using a ab sz by (simp add: RawMemory_dtor_def Deallocate_def)
    have eb: "EmplaceBack T this args w = Normal (Some ?b, int ?n) ?w'"
      unfolding EmplaceBack_def Let_def
      apply (subst if_not_P [OF ncond])
      apply (subst c_eq)+
      apply (rule bnd_NormalI, rule alloc)
      apply (rule bnd_NormalI)
       apply (rule catch_NormalI)
       apply (rule bnd_NormalI, rule plus)
       apply (rule bnd_NormalI, rule c1)
       apply (rule bnd_NormalI, rule x0')
       apply (rule bnd_NormalI, rule d0)
       apply (rule ret_Normal)
      apply (simp only: RawMemory_Swap_def prod.case)
      apply (rule bnd_NormalI, rule set_data_Normal)
      apply (rule bnd_NormalI, rule set_size_Normal)
      apply (rule bnd_NormalI, rule dealloc)
      apply (rule ret_Normal)
      done
    have "holds ?w' this (xs @ [x]) (max 1 (2 * length xs) - length xs - 1)"
      using npos ab by (simp add: holds_def max_def Suc_le_eq)
    moreover have "wf_world ?w'"
      using wf by (auto simp: wf_world_def arg_effect_heap_None)
    ultimately show ?thesis
      using eb by (intro exI [of _ ?w']) (simp add: transfer_ctor_def)
  qed
qed

lemma stack_alloc_Normal:
  "stack_alloc w = Normal (Some (next_addr w), 0)
     (w\<lparr>heap := (heap w)(next_addr w \<mapsto> [Raw]), next_addr := Suc (next_addr w)\<rparr>)"
  by (simp add: stack_alloc_def)

lemma stack_free_Normal:
  "stack_free (Some t, i) w = Normal () (w\<lparr>heap := (heap w)(t := None)\<rparr>)"
  by (simp add: stack_free_def)

lemma Emplace_spare:
  assumes wf: "wf_world w" and h: "holds w this (us @ vs @ [l]) (Suc k)" and nf: "no_failure T w"
    and av: "arg_value w args = Some x" and ext: "external w this args"
  shows "\<exists>w'. Emplace T this (ptr_add (Vector_begin (vectors w this)) (int (length us))) args w =
              Normal (ptr_add (Vector_begin (vectors w this)) (int (length us))) w' \<and>
           holds w' this (us @ [x] @ vs @ [l]) k \<and> wf_world w' \<and> live w' = live w + 1 \<and>
           data_m (vectors w' this) = data_m (vectors w this) \<and>
           (\<forall>\<kappa>. calls w' \<kappa> = calls w \<kappa> + arg_calls args \<kappa> +
              (if \<kappa> = MoveCtor then 1 else 0) +
              (if \<kappa> = MoveAssign then Suc (length vs) else 0))"
proof -
  let ?xs = "us @ vs @ [l]"
  let ?v = "vectors w this"
  let ?n = "length ?xs"
  let ?p = "length us"
  let ?t = "next_addr w"
  from h obtain a where a: "buffer_m (data_m ?v) = Some a"
    "heap w a = Some (map Obj ?xs @ replicate (Suc k) Raw)"
    by (rule holds_spare_buffer) simp
  have sz: "size_m ?v = ?n" "capacity_m (data_m ?v) = ?n + Suc k"
    using h by (simp_all add: holds_def)
  have fresh: "heap w ?t = None" using wf by (rule wf_world_fresh)
  with a have at: "a \<noteq> ?t" by auto
  from ext a have mba: "moved_block args \<noteq> Some a" by (simp add: external_def)
  have mbt: "moved_block args \<noteq> Some ?t"
    using moved_block_allocated [OF wf av] by auto
  have vb: "Vector_begin ?v = (Some a, 0)" "Vector_end ?v = (Some a, int ?n)"
    using a sz by (simp_all add: Vector_begin_def Vector_end_def GetAddress_def ptr_add_def)
  have pos: "ptr_add (Vector_begin ?v) (int ?p) = (Some a, int ?p)"
    using vb by (simp add: ptr_add_def)
  have ne: "(Some a, int ?p) \<noteq> Vector_end ?v" using vb by simp
  have pd: "ptr_diff (Some a, int ?p) (Vector_begin ?v) = Some ?p"
    using vb by (simp add: ptr_diff_def)
  have cond: "size_m ?v < capacity_m (data_m ?v)" using sz by simp
  \<comment> \<open>the local \<open>tmp\<close>\<close>
  define wt where "wt = w\<lparr>heap := (heap w)(?t \<mapsto> [Raw]), next_addr := Suc ?t\<rparr>"
  have sa: "stack_alloc w = Normal (Some ?t, 0) wt"
    by (simp add: stack_alloc_def wt_def)
  have nft: "no_failure T wt" using nf by (simp add: wt_def)
  have avt: "arg_value wt args = Some x"
    using fresh by (intro arg_value_frame [OF av]) (auto simp: wt_def)
  define E where "E = arg_effect T args wt"
  have E: "vectors E = vectors w" "next_addr E = Suc ?t" "live E = live w"
    "\<And>\<kappa>. calls E \<kappa> = calls w \<kappa> + arg_calls args \<kappa>"
    "heap E a = heap w a" "heap E ?t = Some [Raw]"
    "\<And>c. heap E c = None \<longleftrightarrow> c \<noteq> ?t \<and> heap w c = None"
    using at mba mbt by (simp_all add: E_def wt_def arg_effect_heap arg_effect_heap_None)
  define w1 where "w1 = E\<lparr>heap := (heap E)(?t \<mapsto> [Obj x]), live := live w + 1\<rparr>"
  have "construct T (Some ?t, int 0) args wt =
      Normal () ((arg_effect T args wt)\<lparr>heap := (heap (arg_effect T args wt))(?t \<mapsto> [Raw][0 := Obj x]),
         live := live wt + 1\<rparr>)"
    using mbt by (intro construct_block [OF _ _ avt nft]) (simp_all add: wt_def)
  then have c1: "construct T (Some ?t, 0) args wt = Normal () w1"
    by (simp add: w1_def E_def wt_def)
  have w1: "vectors w1 = vectors w" "next_addr w1 = Suc ?t" "live w1 = live w + 1"
    "calls w1 = calls E" "heap w1 = (heap E)(?t \<mapsto> [Obj x])"
    by (simp_all add: w1_def E)
  \<comment> \<open>the last element is move-constructed into the slot after it\<close>
  let ?s1 = "map Obj ?xs @ replicate (Suc k) Raw"
  have ha1: "heap w1 a = Some ?s1" using a at by (simp add: w1 E)
  have nf1: "no_failure T w1" by (rule no_failure_mono [OF nf]) (simp add: w1 E)
  let ?s2 = "map Obj us @ map Obj vs @ [Obj (moved_from T l)] @ (Obj l # replicate k Raw)"
  define w2 where "w2 = w1\<lparr>heap := (heap w1)(a \<mapsto> ?s2), live := live w1 + 1,
                calls := (calls w1)(MoveCtor := Suc (calls w1 MoveCtor))\<rparr>"
  have s2: "?s1[?n := Obj l, ?n - 1 := Obj (moved_from T l)] = ?s2"
    by (simp add: list_update_append nth_append)
  have "move_construct T (Some a, int ?n) (Some a, int (?n - 1)) w1 =
      Normal () (w1\<lparr>heap := (heap w1)(a \<mapsto> ?s1[?n := Obj l, ?n - 1 := Obj (moved_from T l)]),
        live := live w1 + 1, calls := (calls w1)(MoveCtor := Suc (calls w1 MoveCtor))\<rparr>)"
    by (rule move_construct_same_block [OF ha1 _ _ _ disjI2 [OF no_failure_now [OF nf1]]])
      (simp_all add: nth_append)
  then have "move_construct T (Some a, int ?n) (Some a, int (?n - 1)) w1 = Normal () w2"
    by (simp only: s2 w2_def)
  moreover have "ptr_add (Vector_end ?v) (- 1) = (Some a, int (?n - 1))"
    using vb by (simp add: ptr_add_def)
  ultimately have mc: "move_construct T (Vector_end ?v) (ptr_add (Vector_end ?v) (- 1)) w1 =
      Normal () w2"
    using vb by simp
  have w2: "vectors w2 = vectors w" "next_addr w2 = Suc ?t" "live w2 = live w + 2"
    "calls w2 = (calls E)(MoveCtor := Suc (calls E MoveCtor))" "heap w2 = (heap w1)(a \<mapsto> ?s2)"
    by (simp_all add: w2_def w1)
  \<comment> \<open>the shift\<close>
  have nf2: "no_failure T w2" by (rule no_failure_mono [OF nf]) (simp add: w2 E)
  have ha2: "heap w2 a = Some (map Obj us @ map Obj vs @ [Obj (moved_from T l)] @ (Obj l # replicate k Raw))"
    by (simp add: w2)
  let ?hole = "case vs of [] \<Rightarrow> [Obj (moved_from T l)] | y # _ \<Rightarrow> Obj (moved_from T y) # map Obj vs"
  let ?s3 = "map Obj us @ ?hole @ (Obj l # replicate k Raw)"
  define w3 where "w3 = w2\<lparr>heap := (heap w2)(a \<mapsto> ?s3),
                calls := (calls w2)(MoveAssign := calls w2 MoveAssign + length vs)\<rparr>"
  have "move_backward_loop T (Some a, int (length (map Obj us) + length vs))
          (Some a, int (length (map Obj us) + length vs + 1)) (length vs) w2 = Normal () w3"
    unfolding w3_def by (rule move_backward_loop_block [OF nf2 ha2])
  moreover have "range_length (ptr_add (Vector_begin ?v) (int ?p)) (ptr_add (Vector_end ?v) (- 1)) =
      Some (length vs)"
    using vb by (simp add: range_length_def ptr_add_def)
  moreover have "ptr_add (Vector_end ?v) (- 1) = (Some a, int (length (map Obj us) + length vs))"
    "Vector_end ?v = (Some a, int (length (map Obj us) + length vs + 1))"
    using vb by (simp_all add: ptr_add_def)
  ultimately have mbw: "move_backward T (ptr_add (Vector_begin ?v) (int ?p))
      (ptr_add (Vector_end ?v) (- 1)) (Vector_end ?v) w2 = Normal () w3"
    by (simp add: move_backward_def)
  have w3: "vectors w3 = vectors w" "next_addr w3 = Suc ?t" "live w3 = live w + 2"
    "calls w3 = (calls w2)(MoveAssign := calls w2 MoveAssign + length vs)"
    "heap w3 = (heap w2)(a \<mapsto> ?s3)"
    by (simp_all add: w3_def w2)
  \<comment> \<open>the new value is assigned to its position\<close>
  have ri: "RawMemory_index (data_m ?v) ?p w3 = Normal (Some a, int ?p) w3"
    using a sz by (simp add: RawMemory_index_def)
  have nf3: "no_failure T w3" by (rule no_failure_mono [OF nf]) (simp add: w3 w2 E)
  have ha3: "heap w3 a = Some ?s3" by (simp add: w3)
  have ht3: "heap w3 ?t = Some [Obj x]" using at by (simp add: w3 w2 w1)
  obtain y where y: "?s3 ! ?p = Obj y" by (cases vs) (simp_all add: nth_append)
  let ?s4 = "map Obj (us @ [x] @ vs @ [l]) @ replicate k Raw"
  have s4: "?s3[?p := Obj x] = ?s4" by (cases vs) (simp_all add: list_update_append)
  define w4 where "w4 = w3\<lparr>heap := (heap w3)(a \<mapsto> ?s4, ?t \<mapsto> [Obj (moved_from T x)]),
                calls := (calls w3)(MoveAssign := Suc (calls w3 MoveAssign))\<rparr>"
  have "move_assign T (Some a, int ?p) (Some ?t, int 0) w3 =
      Normal () (w3\<lparr>heap := (heap w3)(a \<mapsto> ?s3[?p := Obj x], ?t \<mapsto> [Obj x][0 := Obj (moved_from T x)]),
                calls := (calls w3)(MoveAssign := Suc (calls w3 MoveAssign))\<rparr>)"
    using at y
    by (intro move_assign_block [OF _ ht3 _ _ ha3 _ _ no_failure_now [OF nf3], where y = y])
      (simp_all add: nth_append)
  then have "move_assign T (Some a, int ?p) (Some ?t, int 0) w3 = Normal () w4"
    by (simp only: s4 list_update_code w4_def)
  then have ma: "move_assign T (Some a, int ?p) (Some ?t, 0) w3 = Normal () w4" by simp
  have w4: "vectors w4 = vectors w" "next_addr w4 = Suc ?t" "live w4 = live w + 2"
    "calls w4 = (calls w3)(MoveAssign := Suc (calls w3 MoveAssign))"
    "heap w4 = (heap w3)(a \<mapsto> ?s4, ?t \<mapsto> [Obj (moved_from T x)])"
    by (simp_all add: w4_def w3)
  \<comment> \<open>the end of \<open>tmp\<close>\<close>
  define w5 where "w5 = w4\<lparr>heap := (heap w4)(?t \<mapsto> [Raw]), live := live w4 - 1\<rparr>"
  have "destroy_at (Some ?t, int 0) w4 =
      Normal () (w4\<lparr>heap := (heap w4)(?t \<mapsto> [Obj (moved_from T x)][0 := Raw]), live := live w4 - 1\<rparr>)"
    by (rule destroy_at_block [where x = "moved_from T x"]) (simp_all add: w4)
  then have da: "destroy_at (Some ?t, 0) w4 = Normal () w5" by (simp add: w5_def)
  define w6 where "w6 = w5\<lparr>heap := (heap w5)(?t := None)\<rparr>"
  have sf: "stack_free (Some ?t, 0) w5 = Normal () w6"
    by (simp add: stack_free_def w6_def)
  define w' where "w' = w6\<lparr>vectors := (vectors w6)(this := (vectors w6 this)\<lparr>size_m := size_m (vectors w6 this) + 1\<rparr>)\<rparr>"
  have ss: "set_size this (size_m (vectors w6 this) + 1) w6 = Normal () w'"
    by (simp add: set_size_def set_vector_def w'_def)
  have w6: "vectors w6 = vectors w" "next_addr w6 = Suc ?t" "live w6 = live w + 1"
    "calls w6 = calls w4" "heap w6 = (heap w4)(?t := None)"
    by (simp_all add: w6_def w5_def w4)
  have w': "vectors w' = (vectors w)(this := ?v\<lparr>size_m := Suc ?n\<rparr>)" "next_addr w' = Suc ?t"
    "live w' = live w + 1" "calls w' = calls w4" "heap w' = (heap w4)(?t := None)"
    using sz by (simp_all add: w'_def w6)
  have fin: "ptr_add (Vector_begin (vectors w' this)) (int ?p) = ptr_add (Vector_begin ?v) (int ?p)"
    by (simp add: Vector_begin_def w')
  have em: "Emplace T this (Some a, int ?p) args w = Normal (ptr_add (Vector_begin ?v) (int ?p)) w'"
    unfolding Emplace_def Let_def
    apply (subst if_not_P [OF ne])
    apply (subst pd)
    apply (simp only: option.case)
    apply (subst if_P [OF cond])
    apply (rule bnd_NormalI)
     apply (unfold with_local_def)
     apply (rule bnd_NormalI, rule sa)
     apply (rule bnd_NormalI, rule catch_NormalI, rule c1)
     apply (rule bnd_NormalI, rule catch_NormalI)
      apply (rule bnd_NormalI, rule mc)
      apply (rule bnd_NormalI, rule catch_NormalI, rule mbw)
      apply (rule bnd_NormalI, rule ri)
      apply (rule ma)
     apply (rule bnd_NormalI, rule da)
     apply (rule bnd_NormalI, rule sf)
     apply (rule ret_Normal)
    apply (rule bnd_NormalI, rule ss)
    apply (subst fin)
    apply (rule ret_Normal)
    done
  have "holds w' this (us @ [x] @ vs @ [l]) k"
    using a sz at by (simp add: holds_def w' w4)
  moreover have "wf_world w'"
    using wf at wf_world_allocated [OF wf a(2)] by (auto simp: wf_world_def w' w4 w3 w2 w1 E)
  moreover have "\<forall>\<kappa>. calls w' \<kappa> = calls w \<kappa> + arg_calls args \<kappa> +
              (if \<kappa> = MoveCtor then 1 else 0) +
              (if \<kappa> = MoveAssign then Suc (length vs) else 0)"
    by (simp add: w' w4 w3 w2 E)
  ultimately show ?thesis
    using em pos a by (intro exI [of _ w']) (simp add: w')
qed

lemma Emplace_grow:
  assumes wf: "wf_world w" and h: "holds w this (us @ vs) 0" and ne: "vs \<noteq> []"
    and nf: "no_failure T w" and av: "arg_value w args = Some x" and ext: "external w this args"
  shows "\<exists>w'. Emplace T this (ptr_add (Vector_begin (vectors w this)) (int (length us))) args w =
              Normal (Some (next_addr w), int (length us)) w' \<and>
           holds w' this (us @ [x] @ vs) (length (us @ vs) - 1) \<and> wf_world w' \<and>
           live w' = live w + 1 \<and>
           buffer_m (data_m (vectors w' this)) = Some (next_addr w) \<and>
           (\<forall>\<kappa>. calls w' \<kappa> = calls w \<kappa> + arg_calls args \<kappa> +
              (if \<kappa> = OperatorNew then 1 else 0) +
              (if \<kappa> = transfer_ctor T then length (us @ vs) else 0))"
proof -
  let ?xs = "us @ vs"
  let ?v = "vectors w this"
  let ?n = "length ?xs"
  let ?p = "length us"
  let ?b = "next_addr w"
  let ?c = "if size_m ?v = 0 then 1 else size_m ?v * 2"
  have npos: "0 < ?n" using ne by simp
  from h npos obtain a where a: "buffer_m (data_m ?v) = Some a" "heap w a = Some (map Obj ?xs)"
    by (cases "buffer_m (data_m ?v)") (auto simp: holds_def)
  have sz: "size_m ?v = ?n" "capacity_m (data_m ?v) = ?n"
    using h by (simp_all add: holds_def)
  have c: "?c = 2 * ?n" using sz npos by simp
  have fresh: "heap w ?b = None" using wf by (rule wf_world_fresh)
  with a have ab: "a \<noteq> ?b" by auto
  have alt: "a < ?b" by (rule wf_world_allocated [OF wf a(2)])
  from ext a have mba: "moved_block args \<noteq> Some a" by (simp add: external_def)
  have mbb: "moved_block args \<noteq> Some ?b"
    using moved_block_allocated [OF wf av] by auto
  have vb: "Vector_begin ?v = (Some a, 0)" "Vector_end ?v = (Some a, int ?n)"
    using a sz by (simp_all add: Vector_begin_def Vector_end_def GetAddress_def ptr_add_def)
  have pne: "ptr_add (Vector_begin ?v) (int ?p) \<noteq> Vector_end ?v"
    using vb ne by (simp add: ptr_add_def)
  have pd: "ptr_diff (ptr_add (Vector_begin ?v) (int ?p)) (Vector_begin ?v) = Some ?p"
    using vb by (simp add: ptr_diff_def ptr_add_def)
  have ncond: "\<not> size_m ?v < capacity_m (data_m ?v)" using sz by simp
  have le: "?p \<le> size_m ?v" using sz by simp
  \<comment> \<open>the new storage\<close>
  define nd where "nd = \<lparr>buffer_m = Some ?b, capacity_m = ?c\<rparr>"
  define w0 where "w0 = w\<lparr>heap := (heap w)(?b \<mapsto> replicate ?c Raw), next_addr := Suc ?b,
          calls := (calls w)(OperatorNew := Suc (calls w OperatorNew))\<rparr>"
  have alloc: "RawMemory_ctor T ?c w = Normal nd w0"
    unfolding nd_def w0_def using nf npos sz by (intro RawMemory_ctor_block) simp_all
  have nd: "GetAddress nd = (Some ?b, 0)" "buffer_m nd = Some ?b" "capacity_m nd = 2 * ?n"
    using c by (simp_all add: nd_def GetAddress_def)
  have nf0: "no_failure T w0" by (rule no_failure_mono [OF nf]) (simp add: w0_def)
  have av0: "arg_value w0 args = Some x"
    using fresh by (intro arg_value_frame [OF av]) (auto simp: w0_def)
  have plus: "RawMemory_plus nd ?p w0 = Normal (Some ?b, int ?p) w0"
    using nd by (simp add: RawMemory_plus_def)
  \<comment> \<open>the new element\<close>
  define E where "E = arg_effect T args w0"
  have E: "vectors E = vectors w" "next_addr E = Suc ?b" "live E = live w"
    "\<And>\<kappa>. calls E \<kappa> = calls w \<kappa> + arg_calls args \<kappa> + (if \<kappa> = OperatorNew then 1 else 0)"
    "heap E a = heap w a" "heap E ?b = Some (replicate (2 * ?n) Raw)"
    "\<And>c. heap E c = None \<longleftrightarrow> c \<noteq> ?b \<and> heap w c = None"
    using ab mba mbb c by (simp_all add: E_def w0_def arg_effect_heap arg_effect_heap_None)
  let ?sb1 = "replicate ?p Raw @ Obj x # replicate (length vs) Raw @ replicate (?n - 1) Raw"
  define w1 where "w1 = E\<lparr>heap := (heap E)(?b \<mapsto> ?sb1), live := live w + 1\<rparr>"
  have sb1: "(replicate (2 * ?n) Raw)[?p := Obj x] = ?sb1"
    using ne by (subst replicate_update) (simp_all add: replicate_add [symmetric] Suc_leI)
  have "construct T (Some ?b, int ?p) args w0 =
      Normal () ((arg_effect T args w0)\<lparr>heap := (heap (arg_effect T args w0))(?b \<mapsto> (replicate (2 * ?n) Raw)[?p := Obj x]),
         live := live w0 + 1\<rparr>)"
    using mbb c ne by (intro construct_block [OF _ _ av0 nf0]) (simp_all add: w0_def)
  then have c1: "construct T (Some ?b, int ?p) args w0 = Normal () w1"
    by (simp only: sb1) (simp add: w1_def E_def w0_def)
  have w1: "vectors w1 = vectors w" "next_addr w1 = Suc ?b" "live w1 = live w + 1"
    "calls w1 = calls E" "heap w1 = (heap E)(?b \<mapsto> ?sb1)"
    by (simp_all add: w1_def E)
  have nf1: "no_failure T w1" by (rule no_failure_mono [OF nf]) (simp add: w1 E)
  \<comment> \<open>the prefix\<close>
  have ha1: "heap w1 a = Some ([] @ map Obj us @ map Obj vs)" using a ab by (simp add: w1 E)
  have hb1: "heap w1 ?b = Some ([] @ replicate ?p Raw @ (Obj x # replicate (length vs) Raw @ replicate (?n - 1) Raw))"
    by (simp add: w1)
  define w2 where "w2 = w1\<lparr>heap := (heap w1)(?b \<mapsto> [] @ map Obj us @ (Obj x # replicate (length vs) Raw @ replicate (?n - 1) Raw),
                                          a \<mapsto> [] @ map Obj (residue T us) @ map Obj vs),
                      live := live w1 + int ?p,
                      calls := (calls w1)(transfer_ctor T := calls w1 (transfer_ctor T) + ?p)\<rparr>"
  have t1m: "uninitialized_move_n T (Vector_begin ?v) ?p (GetAddress nd) w1 = Normal () w2" if "moves T"
    using transfer_move_block [OF that ab nf1 ha1 hb1] by (simp add: vb nd w2_def)
  have t1c: "uninitialized_copy_n T (Vector_begin ?v) ?p (GetAddress nd) w1 = Normal () w2" if "\<not> moves T"
    using transfer_copy_block [OF that ab nf1 ha1 hb1] by (simp add: vb nd w2_def)
  have w2: "vectors w2 = vectors w" "next_addr w2 = Suc ?b" "live w2 = live w + 1 + int ?p"
    "calls w2 = (calls E)(transfer_ctor T := calls E (transfer_ctor T) + ?p)"
    "heap w2 = (heap w1)(?b \<mapsto> map Obj us @ (Obj x # replicate (length vs) Raw @ replicate (?n - 1) Raw),
                        a \<mapsto> map Obj (residue T us) @ map Obj vs)"
    by (simp_all add: w2_def w1)
  have nf2: "no_failure T w2" by (rule no_failure_mono [OF nf]) (simp add: w2 E)
  \<comment> \<open>the suffix\<close>
  have ha2: "heap w2 a = Some (map Obj (residue T us) @ map Obj vs @ [])" by (simp add: w2)
  have hb2: "heap w2 ?b = Some ((map Obj us @ [Obj x]) @ replicate (length vs) Raw @ replicate (?n - 1) Raw)"
    using ab by (simp add: w2)
  define w3 where "w3 = w2\<lparr>heap := (heap w2)(?b \<mapsto> (map Obj us @ [Obj x]) @ map Obj vs @ replicate (?n - 1) Raw,
                                          a \<mapsto> map Obj (residue T us) @ map Obj (residue T vs) @ []),
                      live := live w2 + int (length vs),
                      calls := (calls w2)(transfer_ctor T := calls w2 (transfer_ctor T) + length vs)\<rparr>"
  have ptrs: "ptr_add (Vector_begin ?v) (int ?p) = (Some a, int (length (map Obj (residue T us))))"
    "ptr_add (ptr_add (GetAddress nd) (int ?p)) 1 = (Some ?b, int (length (map Obj us @ [Obj x])))"
    "size_m ?v - ?p = length vs"
    using vb nd sz by (simp_all add: ptr_add_def)
  have t2m: "uninitialized_move_n T (ptr_add (Vector_begin ?v) (int ?p)) (size_m ?v - ?p)
        (ptr_add (ptr_add (GetAddress nd) (int ?p)) 1) w2 = Normal () w3" if "moves T"
    unfolding ptrs w3_def by (rule transfer_move_block [OF that ab nf2 ha2 hb2]) simp
  have t2c: "uninitialized_copy_n T (ptr_add (Vector_begin ?v) (int ?p)) (size_m ?v - ?p)
        (ptr_add (ptr_add (GetAddress nd) (int ?p)) 1) w2 = Normal () w3" if "\<not> moves T"
    unfolding ptrs w3_def by (rule transfer_copy_block [OF that ab nf2 ha2 hb2]) simp
  have w3: "vectors w3 = vectors w" "next_addr w3 = Suc ?b" "live w3 = live w + 1 + int ?n"
    "calls w3 = (calls E)(transfer_ctor T := calls E (transfer_ctor T) + ?n)"
    "heap w3 = (heap w2)(?b \<mapsto> map Obj (us @ [x] @ vs) @ replicate (?n - 1) Raw,
                        a \<mapsto> map Obj (residue T ?xs))"
    using ab by (simp_all add: w3_def w2 residue_append add.assoc)
  \<comment> \<open>the old elements and the old storage\<close>
  have ha3: "heap w3 a = Some ([] @ map Obj (residue T ?xs) @ [])" by (simp add: w3)
  define w4 where "w4 = w3\<lparr>heap := (heap w3)(a \<mapsto> [] @ replicate (length (residue T ?xs)) Raw @ []),
                  live := live w3 - int (length (residue T ?xs))\<rparr>"
  have "destroy_n (Some a, int (length ([]::'a slot list))) (length (residue T ?xs)) w3 = Normal () w4"
    unfolding w4_def by (rule destroy_n_block [OF ha3])
  then have dn: "destroy_n (Vector_begin ?v) (size_m ?v) w3 = Normal () w4"
    using vb sz by simp
  define w5 where "w5 = w4\<lparr>vectors := (vectors w4)(this := (vectors w4 this)\<lparr>data_m := nd\<rparr>)\<rparr>"
  have sd: "set_data this nd w4 = Normal () w5"
    by (simp add: set_data_def set_vector_def w5_def)
  define w6 where "w6 = w5\<lparr>heap := (heap w5)(a := None)\<rparr>"
  have w5h: "heap w5 a = Some (replicate ?n Raw)" by (simp add: w5_def w4_def w3)
  have dl: "RawMemory_dtor (data_m ?v) w5 = Normal () w6"
    using a w5h by (simp add: RawMemory_dtor_def Deallocate_def w6_def)
  have w6: "vectors w6 = (vectors w)(this := ?v\<lparr>data_m := nd\<rparr>)" "next_addr w6 = Suc ?b"
    "live w6 = live w + 1" "calls w6 = calls w3"
    "heap w6 = (heap w3)(a := None)"
    by (simp_all add: w6_def w5_def w4_def w3)
  have rm: "ReallocateWithMove T this ?p args w = Normal () w6" if "moves T"
    unfolding ReallocateWithMove_def Let_def
    apply (rule bnd_NormalI, rule alloc)
    apply (rule bnd_NormalI, rule catch_NormalI)
     apply (rule bnd_NormalI, rule plus)
     apply (rule bnd_NormalI, rule c1)
     apply (rule bnd_NormalI, rule t1m [OF that])
     apply (rule bnd_NormalI)
      apply (subst if_P [OF le])
      apply (rule t2m [OF that])
     apply (rule dn)
    apply (simp only: RawMemory_Swap_def prod.case)
    apply (rule bnd_NormalI, rule sd)
    apply (rule dl)
    done
  have rc: "ReallocateWithCopy T this ?p args w = Normal () w6" if "\<not> moves T"
    unfolding ReallocateWithCopy_def Let_def
    apply (rule bnd_NormalI, rule alloc)
    apply (rule bnd_NormalI, rule catch_NormalI)
     apply (rule bnd_NormalI, rule plus)
     apply (rule bnd_NormalI, rule c1)
     apply (rule bnd_NormalI, rule catch_NormalI)
      apply (rule bnd_NormalI, rule t1c [OF that])
      apply (subst if_P [OF le])
      apply (rule t2c [OF that])
     apply (rule dn)
    apply (simp only: RawMemory_Swap_def prod.case)
    apply (rule bnd_NormalI, rule sd)
    apply (rule dl)
    done
  have re: "(if nothrow_move_constructible T \<or> \<not> copy_constructible T
             then ReallocateWithMove T this ?p args
             else ReallocateWithCopy T this ?p args) w = Normal () w6"
    using rm rc by (cases "moves T") (simp_all add: moves_def)
  define w' where "w' = w6\<lparr>vectors := (vectors w6)(this := (vectors w6 this)\<lparr>size_m := size_m (vectors w6 this) + 1\<rparr>)\<rparr>"
  have ss: "set_size this (size_m (vectors w6 this) + 1) w6 = Normal () w'"
    by (simp add: set_size_def set_vector_def w'_def)
  have w': "vectors w' = (vectors w)(this := \<lparr>data_m = nd, size_m = Suc ?n\<rparr>)" "next_addr w' = Suc ?b"
    "live w' = live w + 1" "calls w' = calls w3" "heap w' = (heap w3)(a := None)"
    using sz by (simp_all add: w'_def w6)
  have fin: "ptr_add (Vector_begin (vectors w' this)) (int ?p) = (Some ?b, int ?p)"
    by (simp add: Vector_begin_def w' nd)
  have em: "Emplace T this (ptr_add (Vector_begin ?v) (int ?p)) args w = Normal (Some ?b, int ?p) w'"
    unfolding Emplace_def Let_def
    apply (subst if_not_P [OF pne])
    apply (subst pd)
    apply (simp only: option.case)
    apply (subst if_not_P [OF ncond])
    apply (rule bnd_NormalI, rule re)
    apply (rule bnd_NormalI, rule ss)
    apply (subst fin)
    apply (rule ret_Normal)
    done
  have "holds w' this (us @ [x] @ vs) (?n - 1)"
    using ab npos by (simp add: holds_def w' w3 nd)
  moreover have "wf_world w'"
    using wf alt by (auto simp: wf_world_def w' w3 w2 w1 E)
  moreover have "\<forall>\<kappa>. calls w' \<kappa> = calls w \<kappa> + arg_calls args \<kappa> +
              (if \<kappa> = OperatorNew then 1 else 0) +
              (if \<kappa> = transfer_ctor T then ?n else 0)"
    by (simp add: w' w3 E)
  ultimately show ?thesis
    using em by (intro exI [of _ w']) (simp add: w' nd)
qed

lemma external_spare:
  "external w this args \<Longrightarrow> holds w this xs (Suc k) \<Longrightarrow>
   moved_block args \<noteq> buffer_m (data_m (vectors w this))"
  by (cases "buffer_m (data_m (vectors w this))") (auto simp: external_def holds_def)

lemma external_full:
  "external w this args \<Longrightarrow>
   moved_block args \<noteq> buffer_m (data_m (vectors w this)) \<or> xs = [] \<or>
   buffer_m (data_m (vectors w this)) = None"
  by (cases "buffer_m (data_m (vectors w this))") (auto simp: external_def)

lemma holds_deref:
  "holds w this xs k \<Longrightarrow> i < length xs \<Longrightarrow>
   deref w (buffer_m (data_m (vectors w this)), int i) = Some (xs ! i)"
  by (cases "buffer_m (data_m (vectors w this))")
    (auto simp: holds_def deref_def slot_at_def nth_append)

lemma EmplaceBack_ok:
  assumes wf: "wf_world w" and h: "holds w this xs k" and nf: "no_failure T w"
    and av: "arg_value w args = Some x" and ext: "external w this args"
  shows "\<exists>w'. EmplaceBack T this args w =
              Normal (buffer_m (data_m (vectors w' this)), int (length xs)) w' \<and>
           holds w' this (xs @ [x]) (if k = 0 then max 1 (2 * length xs) - length xs - 1 else k - 1) \<and>
           wf_world w' \<and> no_failure T w' \<and> live w' = live w + 1"
proof (cases k)
  case 0
  have mb: "moved_block args \<noteq> buffer_m (data_m (vectors w this)) \<or> xs = []"
  proof (cases "buffer_m (data_m (vectors w this))")
    case None
    with h 0 show ?thesis by (simp add: holds_def)
  next
    case (Some a)
    with ext show ?thesis by (simp add: external_def)
  qed
  from EmplaceBack_grow [OF wf h [unfolded 0] nf av mb] obtain w' where
    w': "EmplaceBack T this args w = Normal (Some (next_addr w), int (length xs)) w'"
      "holds w' this (xs @ [x]) (max 1 (2 * length xs) - length xs - 1)" "wf_world w'"
      "live w' = live w + 1" "buffer_m (data_m (vectors w' this)) = Some (next_addr w)"
      "\<forall>\<kappa>. calls w' \<kappa> = calls w \<kappa> + arg_calls args \<kappa> +
              (if \<kappa> = OperatorNew then 1 else 0) +
              (if \<kappa> = transfer_ctor T then length xs else 0)"
    by blast
  have "no_failure T w'" by (rule no_failure_mono [OF nf]) (simp add: w'(6))
  with w' 0 show ?thesis by (intro exI [of _ w']) simp
next
  case (Suc k')
  from EmplaceBack_spare [OF wf h [unfolded Suc] nf av external_spare [OF ext h [unfolded Suc]]]
  obtain w' where
    w': "EmplaceBack T this args w = Normal (buffer_m (data_m (vectors w this)), int (length xs)) w'"
      "holds w' this (xs @ [x]) k'" "wf_world w'" "live w' = live w + 1"
      "data_m (vectors w' this) = data_m (vectors w this)"
      "\<forall>\<kappa>. calls w' \<kappa> = calls w \<kappa> + arg_calls args \<kappa>"
    by blast
  have "no_failure T w'" by (rule no_failure_mono [OF nf]) (simp add: w'(6))
  with w' Suc show ?thesis by (intro exI [of _ w']) simp
qed

lemma Emplace_ok:
  assumes wf: "wf_world w" and h: "holds w this xs k" and nf: "no_failure T w"
    and av: "arg_value w args = Some x" and ext: "external w this args"
    and p: "p \<le> length xs"
  shows "\<exists>w'. Emplace T this (ptr_add (Vector_begin (vectors w this)) (int p)) args w =
              Normal (ptr_add (Vector_begin (vectors w' this)) (int p)) w' \<and>
           holds w' this (take p xs @ [x] @ drop p xs)
             (if k = 0 then max 1 (2 * length xs) - length xs - 1 else k - 1) \<and>
           wf_world w' \<and> no_failure T w' \<and> live w' = live w + 1"
proof (cases "p = length xs")
  case True
  have sz: "size_m (vectors w this) = length xs" using h by (simp add: holds_def)
  have pe: "ptr_add (Vector_begin (vectors w this)) (int p) = Vector_end (vectors w this)"
    using True sz by (simp add: Vector_begin_def Vector_end_def)
  have e: "Emplace T this (ptr_add (Vector_begin (vectors w this)) (int p)) args w =
      EmplaceBack T this args w"
    by (simp add: Emplace_def pe)
  from EmplaceBack_ok [OF wf h nf av ext] obtain w' where
    "EmplaceBack T this args w = Normal (buffer_m (data_m (vectors w' this)), int (length xs)) w'"
    "holds w' this (xs @ [x]) (if k = 0 then max 1 (2 * length xs) - length xs - 1 else k - 1)"
    "wf_world w'" "no_failure T w'" "live w' = live w + 1"
    by blast
  then show ?thesis
    using True e
    by (intro exI [of _ w']) (simp add: Vector_begin_def GetAddress_def ptr_add_def)
next
  case False
  with p have lt: "p < length xs" by simp
  define us where "us = take p xs"
  have us: "length us = p" using lt by (simp add: us_def)
  show ?thesis
  proof (cases k)
    case 0
    define vs where "vs = drop p xs"
    have xs: "xs = us @ vs" "vs \<noteq> []" using lt by (simp_all add: us_def vs_def)
    from Emplace_grow [OF wf h [unfolded 0 xs(1)] xs(2) nf av ext] obtain w' where
      w': "Emplace T this (ptr_add (Vector_begin (vectors w this)) (int (length us))) args w =
              Normal (Some (next_addr w), int (length us)) w'"
        "holds w' this (us @ [x] @ vs) (length (us @ vs) - 1)" "wf_world w'"
        "live w' = live w + 1" "buffer_m (data_m (vectors w' this)) = Some (next_addr w)"
        "\<forall>\<kappa>. calls w' \<kappa> = calls w \<kappa> + arg_calls args \<kappa> +
              (if \<kappa> = OperatorNew then 1 else 0) +
              (if \<kappa> = transfer_ctor T then length (us @ vs) else 0)"
      by blast
    have "no_failure T w'" by (rule no_failure_mono [OF nf]) (simp add: w'(6))
    moreover have "max 1 (2 * length xs) - length xs - 1 = length xs - 1" using lt by simp
    ultimately show ?thesis
      using w' 0 us lt
      by (intro exI [of _ w'])
        (simp add: xs(1) [symmetric] us_def vs_def Vector_begin_def GetAddress_def ptr_add_def)
  next
    case (Suc k')
    define vs where "vs = drop p (butlast xs)"
    define l where "l = last xs"
    have "xs \<noteq> []" using lt by auto
    then have "xs = butlast xs @ [l]" by (simp add: l_def)
    moreover have "butlast xs = us @ vs"
      using take_butlast [OF lt] append_take_drop_id [of p "butlast xs"]
      by (simp add: us_def vs_def)
    ultimately have xs: "xs = us @ vs @ [l]" by simp
    have dr: "drop p xs = vs @ [l]" using xs us by (metis append_eq_conv_conj)
    from Emplace_spare [OF wf h [unfolded Suc xs] nf av ext] obtain w' where
      w': "Emplace T this (ptr_add (Vector_begin (vectors w this)) (int (length us))) args w =
              Normal (ptr_add (Vector_begin (vectors w this)) (int (length us))) w'"
        "holds w' this (us @ [x] @ vs @ [l]) k'" "wf_world w'" "live w' = live w + 1"
        "data_m (vectors w' this) = data_m (vectors w this)"
        "\<forall>\<kappa>. calls w' \<kappa> = calls w \<kappa> + arg_calls args \<kappa> +
              (if \<kappa> = MoveCtor then 1 else 0) +
              (if \<kappa> = MoveAssign then Suc (length vs) else 0)"
      by blast
    have "no_failure T w'" by (rule no_failure_mono [OF nf]) (simp add: w'(6))
    then show ?thesis
      using w' Suc us dr
      by (intro exI [of _ w']) (simp add: us_def [symmetric] Vector_begin_def)
  qed
qed

lemma Reserve_grow:
  assumes wf: "wf_world w" and h: "holds w this xs k" and nf: "no_failure T w"
    and n: "length xs + k < n"
  shows "\<exists>w'. Reserve T this n w = Normal () w' \<and>
           holds w' this xs (n - length xs) \<and> wf_world w' \<and> no_failure T w' \<and>
           live w' = live w \<and>
           (\<forall>\<kappa>. calls w' \<kappa> = calls w \<kappa> + (if \<kappa> = OperatorNew then 1 else 0) +
              (if \<kappa> = transfer_ctor T then length xs else 0))"
proof -
  let ?v = "vectors w this"
  let ?m = "length xs"
  let ?b = "next_addr w"
  have sz: "size_m ?v = ?m" "capacity_m (data_m ?v) = ?m + k"
    using h by (simp_all add: holds_def)
  have ncond: "\<not> n \<le> capacity_m (data_m ?v)" using sz n by simp
  have fresh: "heap w ?b = None" using wf by (rule wf_world_fresh)
  define nd where "nd = \<lparr>buffer_m = Some ?b, capacity_m = n\<rparr>"
  define w0 where "w0 = w\<lparr>heap := (heap w)(?b \<mapsto> replicate n Raw), next_addr := Suc ?b,
          calls := (calls w)(OperatorNew := Suc (calls w OperatorNew))\<rparr>"
  have alloc: "RawMemory_ctor T n w = Normal nd w0"
    unfolding nd_def w0_def using nf n by (intro RawMemory_ctor_block) simp_all
  have nd: "GetAddress nd = (Some ?b, 0)" "buffer_m nd = Some ?b" "capacity_m nd = n"
    by (simp_all add: nd_def GetAddress_def)
  have nf0: "no_failure T w0" by (rule no_failure_mono [OF nf]) (simp add: w0_def)
  have w0: "vectors w0 = vectors w" "next_addr w0 = Suc ?b" "live w0 = live w"
    "calls w0 = (calls w)(OperatorNew := Suc (calls w OperatorNew))"
    "heap w0 = (heap w)(?b \<mapsto> replicate n Raw)"
    by (simp_all add: w0_def)
  let ?xfer = "if nothrow_move_constructible T \<or> \<not> copy_constructible T
               then uninitialized_move_n T (GetAddress (data_m ?v)) (size_m ?v) (GetAddress nd)
               else uninitialized_copy_n T (GetAddress (data_m ?v)) (size_m ?v) (GetAddress nd)"
  show ?thesis
  proof (cases "buffer_m (data_m ?v)")
    case None
    with h have e: "xs = []" "k = 0" by (simp_all add: holds_def)
    define w' where "w' = w0\<lparr>vectors := (vectors w0)(this := (vectors w0 this)\<lparr>data_m := nd\<rparr>)\<rparr>"
    have x0: "?xfer w0 = Normal () w0"
      using e sz by (simp add: uninitialized_move_n_def uninitialized_copy_n_def)
    have d0: "destroy_n (GetAddress (data_m ?v)) (size_m ?v) w0 = Normal () w0"
      using e sz by simp
    have sd: "set_data this nd w0 = Normal () w'"
      by (simp add: set_data_def set_vector_def w'_def)
    have dl: "RawMemory_dtor (data_m ?v) w' = Normal () w'"
      using None by (simp add: RawMemory_dtor_def Deallocate_def)
    have r: "Reserve T this n w = Normal () w'"
      unfolding Reserve_def Let_def
      apply (subst if_not_P [OF ncond])
      apply (rule bnd_NormalI, rule alloc)
      apply (rule bnd_NormalI, rule catch_NormalI)
       apply (rule bnd_NormalI, rule x0)
       apply (rule d0)
      apply (simp only: RawMemory_Swap_def prod.case)
      apply (rule bnd_NormalI, rule sd)
      apply (rule dl)
      done
    have "holds w' this xs (n - length xs)"
      using e sz by (simp add: holds_def w'_def w0 nd)
    moreover have "wf_world w'" using wf by (auto simp: wf_world_def w'_def w0)
    moreover have "no_failure T w'" by (rule no_failure_mono [OF nf]) (simp add: w'_def w0)
    ultimately show ?thesis
      using r e by (intro exI [of _ w']) (simp add: w'_def w0)
  next
    case (Some a)
    with h have a: "heap w a = Some ([] @ map Obj xs @ replicate k Raw)" by (simp add: holds_def)
    with fresh have ab: "a \<noteq> ?b" by auto
    have alt: "a < ?b" by (rule wf_world_allocated [OF wf a])
    have ha0: "heap w0 a = Some ([] @ map Obj xs @ replicate k Raw)" using a ab by (simp add: w0)
    have hb0: "heap w0 ?b = Some ([] @ replicate ?m Raw @ replicate (n - ?m) Raw)"
      using n by (simp add: w0 replicate_add [symmetric])
    define w2 where "w2 = w0\<lparr>heap := (heap w0)(?b \<mapsto> [] @ map Obj xs @ replicate (n - ?m) Raw,
                                          a \<mapsto> [] @ map Obj (residue T xs) @ replicate k Raw),
                      live := live w0 + int ?m,
                      calls := (calls w0)(transfer_ctor T := calls w0 (transfer_ctor T) + ?m)\<rparr>"
    have ga: "GetAddress (data_m ?v) = (Some a, 0)" using Some by (simp add: GetAddress_def)
    have t1m: "uninitialized_move_n T (GetAddress (data_m ?v)) (size_m ?v) (GetAddress nd) w0 = Normal () w2"
      if "moves T"
      using transfer_move_block [OF that ab nf0 ha0 hb0] by (simp add: ga nd sz w2_def)
    have t1c: "uninitialized_copy_n T (GetAddress (data_m ?v)) (size_m ?v) (GetAddress nd) w0 = Normal () w2"
      if "\<not> moves T"
      using transfer_copy_block [OF that ab nf0 ha0 hb0] by (simp add: ga nd sz w2_def)
    have x0: "?xfer w0 = Normal () w2"
      using t1m t1c by (cases "moves T") (simp_all add: moves_def)
    have ha2: "heap w2 a = Some ([] @ map Obj (residue T xs) @ replicate k Raw)" by (simp add: w2_def)
    define w3 where "w3 = w2\<lparr>heap := (heap w2)(a \<mapsto> [] @ replicate (length (residue T xs)) Raw @ replicate k Raw),
                  live := live w2 - int (length (residue T xs))\<rparr>"
    have "destroy_n (Some a, int (length ([]::'a slot list))) (length (residue T xs)) w2 = Normal () w3"
      unfolding w3_def by (rule destroy_n_block [OF ha2])
    then have d0: "destroy_n (GetAddress (data_m ?v)) (size_m ?v) w2 = Normal () w3"
      using ga sz by simp
    define w4 where "w4 = w3\<lparr>vectors := (vectors w3)(this := (vectors w3 this)\<lparr>data_m := nd\<rparr>)\<rparr>"
    have sd: "set_data this nd w3 = Normal () w4"
      by (simp add: set_data_def set_vector_def w4_def)
    define w' where "w' = w4\<lparr>heap := (heap w4)(a := None)\<rparr>"
    have "heap w4 a \<noteq> None" by (simp add: w4_def w3_def)
    then have dl: "RawMemory_dtor (data_m ?v) w4 = Normal () w'"
      using Some by (auto simp add: RawMemory_dtor_def Deallocate_def w'_def)
    have w': "vectors w' = (vectors w)(this := ?v\<lparr>data_m := nd\<rparr>)" "next_addr w' = Suc ?b"
      "live w' = live w"
      "calls w' = (calls w0)(transfer_ctor T := calls w0 (transfer_ctor T) + ?m)"
      "heap w' = (heap w0)(?b \<mapsto> map Obj xs @ replicate (n - ?m) Raw, a := None)"
      using ab by (simp_all add: w'_def w4_def w3_def w2_def w0)
    have r: "Reserve T this n w = Normal () w'"
      unfolding Reserve_def Let_def
      apply (subst if_not_P [OF ncond])
      apply (rule bnd_NormalI, rule alloc)
      apply (rule bnd_NormalI, rule catch_NormalI)
       apply (rule bnd_NormalI, rule x0)
       apply (rule d0)
      apply (simp only: RawMemory_Swap_def prod.case)
      apply (rule bnd_NormalI, rule sd)
      apply (rule dl)
      done
    have "holds w' this xs (n - length xs)"
      using sz ab n by (simp add: holds_def w' w0 nd)
    moreover have "wf_world w'" using wf alt by (auto simp: wf_world_def w' w0)
    moreover have "no_failure T w'" by (rule no_failure_mono [OF nf]) (simp add: w' w0)
    ultimately show ?thesis
      using r by (intro exI [of _ w']) (simp add: w' w0)
  qed
qed

lemma invariant_elements:
  "holds w this xs k \<Longrightarrow> invariant w this \<and> elements w this = map Obj xs \<and> Size w this = length xs
     \<and> Capacity w this = length xs + k"
  using invariant_holds holds_elements holds_Size holds_Capacity by blast

lemma appends_append:
  "appends T this (as @ bs) w =
     (case appends T this as w of
        Normal _ w' \<Rightarrow> appends T this bs w'
      | Throws w' \<Rightarrow> Throws w'
      | AssertFail \<Rightarrow> AssertFail
      | Undefined \<Rightarrow> Undefined)"
  by (induction as arbitrary: w) (auto split: outcome.splits)

lemma PushBack_ok:
  assumes "wf_world w" and "holds w this xs k" and "no_failure T w"
  shows "\<exists>w'. PushBack T this (Make x) w = Normal () w' \<and>
           holds w' this (xs @ [x]) (if k = 0 then max 1 (2 * length xs) - length xs - 1 else k - 1) \<and>
           wf_world w' \<and> no_failure T w'"
proof -
  have av: "arg_value w (Make x) = Some x" by (simp add: arg_value_def)
  have ext: "external w this (Make x)" by (simp add: external_def moved_block_def)
  from EmplaceBack_ok [OF assms av ext] show ?thesis
    by (auto simp: PushBack_def bnd_def ret_def)
qed

lemma appends_from_empty:
  assumes "wf_world w" and "holds w this [] 0" and "no_failure T w"
  shows "\<exists>w' k. appends T this (map Make ys) w = Normal () w' \<and> wf_world w' \<and> no_failure T w' \<and>
           holds w' this ys k \<and> (ys = [] \<and> k = 0 \<or> (\<exists>j. length ys + k = 2 ^ j))"
proof (induction ys rule: rev_induct)
  case Nil
  with assms show ?case by auto
next
  case (snoc y ys)
  then obtain w1 k where w1: "appends T this (map Make ys) w = Normal () w1" "wf_world w1"
    "no_failure T w1" "holds w1 this ys k" "ys = [] \<and> k = 0 \<or> (\<exists>j. length ys + k = 2 ^ j)"
    by blast
  let ?k' = "if k = 0 then max 1 (2 * length ys) - length ys - 1 else k - 1"
  from PushBack_ok [OF w1(2,4,3)] obtain w' where
    w': "PushBack T this (Make y) w1 = Normal () w'" "holds w' this (ys @ [y]) ?k'"
      "wf_world w'" "no_failure T w'"
    by blast
  have a: "appends T this (map Make (ys @ [y])) w = Normal () w'"
    using w1(1) w'(1) by (simp add: appends_append)
  have "\<exists>j. length (ys @ [y]) + ?k' = 2 ^ j"
  proof (cases "k = 0")
    case True
    show ?thesis
    proof (cases "ys = []")
      case True
      with \<open>k = 0\<close> show ?thesis by (auto intro: exI [of _ 0])
    next
      case False
      with w1(5) True obtain j where j: "length ys = 2 ^ j" by auto
      have "length (ys @ [y]) + ?k' = 2 ^ Suc j" using True False j by (simp add: max_def)
      then show ?thesis by blast
    qed
  next
    case False
    with w1(5) obtain j where "length ys + k = 2 ^ j" by auto
    with False have "length (ys @ [y]) + ?k' = 2 ^ j" by simp
    then show ?thesis by blast
  qed
  with a w' show ?case by blast
qed

lemma transfer_counts:
  assumes "\<forall>\<kappa>. calls w' \<kappa> = calls w \<kappa> + d \<kappa> + (if \<kappa> = OperatorNew then 1 else 0) +
              (if \<kappa> = transfer_ctor T then n else 0)"
  shows "calls w' MoveCtor = calls w MoveCtor + d MoveCtor +
           (if nothrow_move_constructible T \<or> \<not> copy_constructible T then n else 0) \<and>
         calls w' CopyCtor = calls w CopyCtor + d CopyCtor +
           (if nothrow_move_constructible T \<or> \<not> copy_constructible T then 0 else n)"
  using assms by (simp add: transfer_ctor_def moves_def)

lemma Emplace_full:
  assumes wf: "wf_world w" and h: "holds w this xs 0" and nf: "no_failure T w"
    and av: "arg_value w args = Some x" and ext: "external w this args"
    and p: "p \<le> length xs"
  shows "\<exists>w' r. Emplace T this (ptr_add (Vector_begin (vectors w this)) (int p)) args w = Normal r w' \<and>
           (\<forall>\<kappa>. calls w' \<kappa> = calls w \<kappa> + arg_calls args \<kappa> +
              (if \<kappa> = OperatorNew then 1 else 0) +
              (if \<kappa> = transfer_ctor T then length xs else 0))"
proof (cases "p = length xs")
  case True
  have sz: "size_m (vectors w this) = length xs" using h by (simp add: holds_def)
  have pe: "ptr_add (Vector_begin (vectors w this)) (int p) = Vector_end (vectors w this)"
    using True sz by (simp add: Vector_begin_def Vector_end_def)
  have e: "Emplace T this (ptr_add (Vector_begin (vectors w this)) (int p)) args w =
      EmplaceBack T this args w"
    by (simp add: Emplace_def pe)
  have mb: "moved_block args \<noteq> buffer_m (data_m (vectors w this)) \<or> xs = []"
  proof (cases "buffer_m (data_m (vectors w this))")
    case None
    with h show ?thesis by (simp add: holds_def)
  next
    case (Some a)
    with ext show ?thesis by (simp add: external_def)
  qed
  from EmplaceBack_grow [OF wf h nf av mb] e show ?thesis by metis
next
  case False
  with p have lt: "p < length xs" by simp
  have xs: "xs = take p xs @ drop p xs" "drop p xs \<noteq> []" "length (take p xs) = p"
    using lt by simp_all
  from Emplace_grow [OF wf _ xs(2) nf av ext, of "take p xs"] h xs show ?thesis
    by (metis append_take_drop_id)
qed

section \<open>Independence of two vectors\<close>

lemma ok_at_simps [simp]:
  "ok_at I Q (Normal x w) \<longleftrightarrow> I w \<and> Q x"
  "ok_at I Q (Throws w) \<longleftrightarrow> I w"
  "ok_at I Q Undefined"
  "ok_at I Q AssertFail"
  by (simp_all add: ok_at_def)

lemma ok_bnd:
  "ok_at I Q (m w) \<Longrightarrow> (\<And>x w'. I w' \<Longrightarrow> Q x \<Longrightarrow> ok_at I R (f x w')) \<Longrightarrow> ok_at I R (bnd m f w)"
  by (cases "m w") (simp_all add: bnd_def)

lemma ok_case:
  "ok_at I Q r \<Longrightarrow> (\<And>x w'. I w' \<Longrightarrow> Q x \<Longrightarrow> ok_at I R (f x w')) \<Longrightarrow>
   ok_at I R (case r of Normal x w' \<Rightarrow> f x w' | Throws w' \<Rightarrow> Throws w'
                | AssertFail \<Rightarrow> AssertFail | Undefined \<Rightarrow> Undefined)"
  by (cases r) simp_all

lemma ok_catch:
  "ok_at I Q (m w) \<Longrightarrow> (\<And>w'. I w' \<Longrightarrow> ok_at I (\<lambda>_. True) (c w')) \<Longrightarrow>
   ok_at I Q (catch_rethrow m c w)"
proof (cases "m w")
  case (Throws w')
  assume a: "ok_at I Q (m w)" and b: "\<And>w'. I w' \<Longrightarrow> ok_at I (\<lambda>_. True) (c w')"
  from a Throws have "I w'" by simp
  from b [OF this] Throws show ?thesis
    by (cases "c w'") (simp_all add: catch_rethrow_def)
qed (simp_all add: catch_rethrow_def)

lemma ok_weaken:
  "ok_at I Q r \<Longrightarrow> (\<And>w. I w \<Longrightarrow> I' w) \<Longrightarrow> (\<And>x. Q x \<Longrightarrow> Q' x) \<Longrightarrow> ok_at I' Q' r"
  by (cases r) simp_all

lemma ok_ret: "I w \<Longrightarrow> Q x \<Longrightarrow> ok_at I Q (ret x w)"
  by (simp add: ret_def)

lemma ok_Normal: "I w \<Longrightarrow> Q x \<Longrightarrow> ok_at I Q (Normal x w)"
  by simp

lemma fst_ptr_add [simp]: "fst (ptr_add p n) = fst p"
  by (simp add: ptr_add_def)

lemma fst_ptrs [simp]:
  "fst (GetAddress d) = buffer_m d" "fst (Vector_begin v) = buffer_m (data_m v)"
  "fst (Vector_end v) = buffer_m (data_m v)"
  by (simp_all add: GetAddress_def Vector_begin_def Vector_end_def)

lemma apart_this: "apart this other V0 H0 N w \<Longrightarrow> away V0 (buffer_m (data_m (vectors w this)))"
  by (simp add: apart_def)

lemma apart_weaken: "apart this other V0 H0 N' w \<Longrightarrow> N \<le> N' \<Longrightarrow> apart this other V0 H0 N w"
  by (simp add: apart_def)

lemma apart_set_slot:
  "apart this other V0 H0 N w \<Longrightarrow> away V0 (fst p) \<Longrightarrow> apart this other V0 H0 N (set_slot p s w)"
  by (auto simp: apart_def away_def set_slot_def split: option.splits)

lemma apart_upd [simp]:
  "apart this other V0 H0 N (w\<lparr>live := l\<rparr>) = apart this other V0 H0 N w"
  "apart this other V0 H0 N (w\<lparr>calls := c\<rparr>) = apart this other V0 H0 N w"
  by (simp_all add: apart_def)

lemma apart_tick [simp]: "apart this other V0 H0 N (tick k w) = apart this other V0 H0 N w"
  by (simp add: tick_def)

lemma ok_place:
  "apart this other V0 H0 N w \<Longrightarrow> away V0 (fst p) \<Longrightarrow>
   ok_at (apart this other V0 H0 N) (\<lambda>_. True) (place p x w)"
  by (auto simp: place_def apart_set_slot split: option.splits)

lemma ok_destroy_at:
  "apart this other V0 H0 N w \<Longrightarrow> away V0 (fst p) \<Longrightarrow>
   ok_at (apart this other V0 H0 N) (\<lambda>_. True) (destroy_at p w)"
  by (auto simp: destroy_at_def apart_set_slot split: option.splits slot.splits)

lemma ok_value_construct:
  "apart this other V0 H0 N w \<Longrightarrow> away V0 (fst p) \<Longrightarrow>
   ok_at (apart this other V0 H0 N) (\<lambda>_. True) (value_construct T p w)"
  by (auto simp: value_construct_def intro!: ok_place)

lemma ok_copy_construct:
  "apart this other V0 H0 N w \<Longrightarrow> away V0 (fst p) \<Longrightarrow>
   ok_at (apart this other V0 H0 N) (\<lambda>_. True) (copy_construct T p q w)"
  by (auto simp: copy_construct_def intro!: ok_place split: option.splits)

lemma ok_move_construct:
  "apart this other V0 H0 N w \<Longrightarrow> away V0 (fst p) \<Longrightarrow> away V0 (fst q) \<Longrightarrow>
   ok_at (apart this other V0 H0 N) (\<lambda>_. True) (move_construct T p q w)"
  unfolding move_construct_def
  by (auto split: option.splits intro!: ok_bnd ok_place simp: apart_set_slot)

lemma ok_copy_assign:
  "apart this other V0 H0 N w \<Longrightarrow> away V0 (fst p) \<Longrightarrow>
   ok_at (apart this other V0 H0 N) (\<lambda>_. True) (copy_assign T p q w)"
  by (auto simp: copy_assign_def apart_set_slot split: option.splits)

lemma ok_move_assign:
  "apart this other V0 H0 N w \<Longrightarrow> away V0 (fst p) \<Longrightarrow> away V0 (fst q) \<Longrightarrow>
   ok_at (apart this other V0 H0 N) (\<lambda>_. True) (move_assign T p q w)"
  by (auto simp: move_assign_def apart_set_slot split: option.splits)

lemma ok_construct:
  "apart this other V0 H0 N w \<Longrightarrow> away V0 (fst p) \<Longrightarrow> away V0 (moved_block args) \<Longrightarrow>
   ok_at (apart this other V0 H0 N) (\<lambda>_. True) (construct T p args w)"
  by (cases args) (auto simp: moved_block_def intro!: ok_copy_construct ok_move_construct ok_place)

lemma ok_destroy_n:
  "apart this other V0 H0 N w \<Longrightarrow> away V0 (fst p) \<Longrightarrow>
   ok_at (apart this other V0 H0 N) (\<lambda>_. True) (destroy_n p n w)"
proof (induction n arbitrary: p w)
  case 0
  then show ?case by simp
next
  case (Suc n)
  show ?case
    unfolding destroy_n.simps
    by (rule ok_case, rule ok_destroy_at [OF Suc.prems]) (simp add: Suc.IH Suc.prems(2))
qed

lemma ok_uninitialized_loop:
  assumes "apart this other V0 H0 N w" and "away V0 (fst d)"
    and "\<And>k w'. apart this other V0 H0 N w' \<Longrightarrow>
           ok_at (apart this other V0 H0 N) (\<lambda>_. True) (step k w')"
  shows "ok_at (apart this other V0 H0 N) (\<lambda>_. True) (uninitialized_loop step d j n w)"
  using assms(1)
proof (induction n arbitrary: j w)
  case 0
  then show ?case by simp
next
  case (Suc n)
  show ?case
  proof (cases "step j w")
    case (Normal x w')
    with assms(3) [OF Suc.prems, of j] show ?thesis by (simp add: Suc.IH)
  next
    case (Throws w')
    with assms(3) [OF Suc.prems, of j] have "apart this other V0 H0 N w'" by simp
    from ok_destroy_n [OF this assms(2), of j] Throws show ?thesis
      by (cases "destroy_n d j w'") simp_all
  qed simp_all
qed

lemma ok_uninitialized_copy_n:
  "apart this other V0 H0 N w \<Longrightarrow> away V0 (fst d) \<Longrightarrow>
   ok_at (apart this other V0 H0 N) (\<lambda>_. True) (uninitialized_copy_n T s n d w)"
  unfolding uninitialized_copy_n_def
  by (rule ok_uninitialized_loop) (auto intro: ok_copy_construct)

lemma ok_uninitialized_move_n:
  "apart this other V0 H0 N w \<Longrightarrow> away V0 (fst d) \<Longrightarrow> away V0 (fst s) \<Longrightarrow>
   ok_at (apart this other V0 H0 N) (\<lambda>_. True) (uninitialized_move_n T s n d w)"
  unfolding uninitialized_move_n_def
  by (rule ok_uninitialized_loop) (auto intro: ok_move_construct)

lemma ok_uninitialized_value_construct_n:
  "apart this other V0 H0 N w \<Longrightarrow> away V0 (fst d) \<Longrightarrow>
   ok_at (apart this other V0 H0 N) (\<lambda>_. True) (uninitialized_value_construct_n T d n w)"
  unfolding uninitialized_value_construct_n_def
  by (rule ok_uninitialized_loop) (auto intro: ok_value_construct)

lemma ok_move_forward_loop:
  "apart this other V0 H0 N w \<Longrightarrow> away V0 (fst p) \<Longrightarrow> away V0 (fst q) \<Longrightarrow>
   ok_at (apart this other V0 H0 N) (\<lambda>_. True) (move_forward_loop T p q n w)"
proof (induction n arbitrary: p q w)
  case 0
  then show ?case by simp
next
  case (Suc n)
  show ?case
    unfolding move_forward_loop.simps
    by (rule ok_case, rule ok_move_assign [OF Suc.prems(1,3,2)]) (simp add: Suc.IH Suc.prems(2,3))
qed

lemma ok_move_backward_loop:
  "apart this other V0 H0 N w \<Longrightarrow> away V0 (fst p) \<Longrightarrow> away V0 (fst q) \<Longrightarrow>
   ok_at (apart this other V0 H0 N) (\<lambda>_. True) (move_backward_loop T p q n w)"
proof (induction n arbitrary: p q w)
  case 0
  then show ?case by simp
next
  case (Suc n)
  have "away V0 (fst (ptr_add q (- 1)))" "away V0 (fst (ptr_add p (- 1)))"
    using Suc.prems(2,3) by simp_all
  note st = ok_move_assign [OF Suc.prems(1) this]
  show ?case
    unfolding move_backward_loop.simps
    by (rule ok_case, rule st) (simp add: Suc.IH Suc.prems(2,3))
qed

lemma ok_std_move:
  "apart this other V0 H0 N w \<Longrightarrow> away V0 (fst p) \<Longrightarrow> away V0 (fst q) \<Longrightarrow>
   ok_at (apart this other V0 H0 N) (\<lambda>_. True) (std_move T p e q w)"
  by (auto simp: std_move_def ok_move_forward_loop split: option.splits)

lemma ok_move_backward:
  "apart this other V0 H0 N w \<Longrightarrow> away V0 (fst e) \<Longrightarrow> away V0 (fst q) \<Longrightarrow>
   ok_at (apart this other V0 H0 N) (\<lambda>_. True) (move_backward T p e q w)"
  by (auto simp: move_backward_def ok_move_backward_loop split: option.splits)

lemma ok_Deallocate:
  "apart this other V0 H0 N w \<Longrightarrow> away V0 buf \<Longrightarrow>
   ok_at (apart this other V0 H0 N) (\<lambda>_. True) (Deallocate buf w)"
  by (auto simp: Deallocate_def apart_def away_def split: option.splits)

lemma ok_RawMemory_dtor:
  "apart this other V0 H0 N w \<Longrightarrow> away V0 (buffer_m d) \<Longrightarrow>
   ok_at (apart this other V0 H0 N) (\<lambda>_. True) (RawMemory_dtor d w)"
  by (simp add: RawMemory_dtor_def ok_Deallocate)

lemma ok_stack_alloc:
  "apart this other V0 H0 N w \<Longrightarrow>
   ok_at (apart this other V0 H0 N) (\<lambda>p. away V0 (fst p)) (stack_alloc w)"
  by (auto simp: stack_alloc_def apart_def away_def below_def)

lemma ok_stack_free:
  "apart this other V0 H0 N w \<Longrightarrow> away V0 (fst p) \<Longrightarrow>
   ok_at (apart this other V0 H0 N) (\<lambda>_. True) (stack_free p w)"
  by (auto simp: stack_free_def apart_def away_def split: option.splits)

lemma ok_set_data:
  "apart this other V0 H0 N w \<Longrightarrow> away V0 (buffer_m d) \<Longrightarrow> below N (buffer_m d) \<Longrightarrow>
   ok_at (apart this other V0 H0 N) (\<lambda>_. True) (set_data this d w)"
  by (auto simp: set_data_def set_vector_def apart_def below_def)

lemma ok_set_size:
  "apart this other V0 H0 N w \<Longrightarrow>
   ok_at (apart this other V0 H0 N) (\<lambda>_. True) (set_size this n w)"
  by (auto simp: set_size_def set_vector_def apart_def)

lemma ok_RawMemory_plus:
  "I w \<Longrightarrow> away V0 (buffer_m d) \<Longrightarrow> ok_at I (\<lambda>p. away V0 (fst p)) (RawMemory_plus d n w)"
  by (simp add: RawMemory_plus_def)

lemma ok_RawMemory_index:
  "I w \<Longrightarrow> away V0 (buffer_m d) \<Longrightarrow> ok_at I (\<lambda>p. away V0 (fst p)) (RawMemory_index d n w)"
  by (simp add: RawMemory_index_def)

text \<open>
  After an allocation the rest of the method runs above the new block: its
  address is below the bound of the invariant from there on.
\<close>

lemma ok_bnd_RawMemory_ctor:
  assumes "apart this other V0 H0 N w"
    and "\<And>d w' N'. apart this other V0 H0 N' w' \<Longrightarrow> away V0 (buffer_m d) \<Longrightarrow>
           below N' (buffer_m d) \<Longrightarrow> ok_at (apart this other V0 H0 N') R (f d w')"
  shows "ok_at (apart this other V0 H0 N) R (bnd (RawMemory_ctor T n) f w)"
proof (cases "n = 0")
  case True
  have "ok_at (apart this other V0 H0 N) R (f \<lparr>buffer_m = None, capacity_m = 0\<rparr> w)"
    by (rule assms(2) [OF assms(1)]) (simp_all add: away_def below_def)
  with True show ?thesis
    by (simp add: RawMemory_ctor_def Allocate_def bnd_def ret_def)
next
  case False
  show ?thesis
  proof (cases "throws T OperatorNew (calls w OperatorNew)")
    case True
    with False assms(1) show ?thesis
      by (simp add: RawMemory_ctor_def Allocate_def bnd_def ret_def)
  next
    case nt: False
    let ?w = "(tick OperatorNew w)
                \<lparr>heap := (heap w)(next_addr w \<mapsto> replicate n Raw), next_addr := next_addr w + 1\<rparr>"
    let ?d = "\<lparr>buffer_m = Some (next_addr w), capacity_m = n\<rparr>"
    from assms(1) have a: "apart this other V0 H0 (Suc (next_addr w)) ?w"
      by (auto simp: apart_def away_def below_def tick_def)
    from assms(1) have b: "away V0 (buffer_m ?d)" "below (Suc (next_addr w)) (buffer_m ?d)"
      by (auto simp: apart_def away_def below_def)
    from assms(1) have le: "N \<le> Suc (next_addr w)" by (simp add: apart_def)
    have "ok_at (apart this other V0 H0 N) R (f ?d ?w)"
      by (rule ok_weaken [OF assms(2) [OF a b]]) (simp_all add: apart_weaken [OF _ le])
    with False nt show ?thesis
      by (simp add: RawMemory_ctor_def Allocate_def bnd_def ret_def)
  qed
qed

lemmas ok_bnd_unit = ok_bnd [where Q = "\<lambda>_::unit. True"]

lemma ok_bnd_ptr:
  "ok_at (apart this other V0 H0 N) (\<lambda>p::ptr. away V0 (fst p)) (m w) \<Longrightarrow>
   (\<And>x w'. apart this other V0 H0 N w' \<Longrightarrow> away V0 (fst x) \<Longrightarrow>
      ok_at (apart this other V0 H0 N) R (f x w')) \<Longrightarrow>
   ok_at (apart this other V0 H0 N) R (bnd m f w)"
  by (rule ok_bnd)

lemmas ok_steps =
  ok_bnd_unit ok_bnd_ptr ok_bnd_RawMemory_ctor ok_catch
  ok_place ok_destroy_at ok_value_construct ok_copy_construct ok_move_construct ok_copy_assign
  ok_move_assign ok_construct ok_destroy_n ok_uninitialized_copy_n ok_uninitialized_move_n
  ok_uninitialized_value_construct_n ok_std_move ok_move_backward
  ok_RawMemory_dtor ok_stack_alloc ok_stack_free ok_set_data ok_set_size ok_RawMemory_plus
  ok_RawMemory_index ok_ret ok_Normal

lemma ok_Reserve:
  assumes "apart this other V0 H0 N w"
  shows "ok_at (apart this other V0 H0 N) (\<lambda>_. True) (Reserve T this n w)"
  using assms apart_this [OF assms]
  unfolding Reserve_def Let_def RawMemory_Swap_def prod.case
  by (auto intro!: ok_steps)

lemma ok_Resize:
  assumes "apart this other V0 H0 N w"
  shows "ok_at (apart this other V0 H0 N) (\<lambda>_. True) (Resize T this n w)"
  using assms apart_this [OF assms]
  unfolding Resize_def Let_def
  by (auto intro!: ok_steps ok_Reserve dest: apart_this)

lemma ok_EmplaceBack:
  assumes "apart this other V0 H0 N w" "away V0 (moved_block args)"
  shows "ok_at (apart this other V0 H0 N) (\<lambda>p. away V0 (fst p)) (EmplaceBack T this args w)"
  using assms apart_this [OF assms(1)]
  unfolding EmplaceBack_def Let_def RawMemory_Swap_def prod.case
  by (auto intro!: ok_steps simp del: destroy_n.simps)

lemma ok_PushBack:
  assumes "apart this other V0 H0 N w" "away V0 (moved_block args)"
  shows "ok_at (apart this other V0 H0 N) (\<lambda>_. True) (PushBack T this args w)"
  unfolding PushBack_def
  by (rule ok_bnd, rule ok_EmplaceBack [OF assms]) (simp add: ret_def)

lemma ok_PopBack:
  assumes "apart this other V0 H0 N w"
  shows "ok_at (apart this other V0 H0 N) (\<lambda>_. True) (PopBack this w)"
  using assms apart_this [OF assms(1)]
  unfolding PopBack_def Let_def
  by (auto intro!: ok_steps)

lemma ok_with_local:
  assumes "apart this other V0 H0 N w" "away V0 (moved_block args)"
    and "\<And>tmp w'. apart this other V0 H0 N w' \<Longrightarrow> away V0 (fst tmp) \<Longrightarrow>
           ok_at (apart this other V0 H0 N) (\<lambda>_. True) (body tmp w')"
  shows "ok_at (apart this other V0 H0 N) (\<lambda>_::unit. True) (with_local T args body w)"
  using assms
  unfolding with_local_def
  by (auto intro!: ok_steps)

lemma ok_ReallocateWithCopy:
  assumes "apart this other V0 H0 N w" "away V0 (moved_block args)"
  shows "ok_at (apart this other V0 H0 N) (\<lambda>_. True) (ReallocateWithCopy T this index args w)"
  using assms apart_this [OF assms(1)]
  unfolding ReallocateWithCopy_def Let_def RawMemory_Swap_def prod.case
  by (auto intro!: ok_steps simp del: destroy_n.simps)

lemma ok_ReallocateWithMove:
  assumes "apart this other V0 H0 N w" "away V0 (moved_block args)"
  shows "ok_at (apart this other V0 H0 N) (\<lambda>_. True) (ReallocateWithMove T this index args w)"
  using assms apart_this [OF assms(1)]
  unfolding ReallocateWithMove_def Let_def RawMemory_Swap_def prod.case
  by (auto intro!: ok_steps)

lemma ok_Emplace:
  assumes "apart this other V0 H0 N w" "away V0 (moved_block args)"
  shows "ok_at (apart this other V0 H0 N) (\<lambda>_. True) (Emplace T this pos args w)"
proof -
  have "ok_at (apart this other V0 H0 N) (\<lambda>_. True) (EmplaceBack T this args w)"
    by (rule ok_weaken [OF ok_EmplaceBack [OF assms]]) simp_all
  with assms apart_this [OF assms(1)] show ?thesis
    unfolding Emplace_def Let_def
    by (auto intro!: ok_steps ok_with_local ok_ReallocateWithCopy
        ok_ReallocateWithMove split: option.splits simp del: destroy_n.simps)
qed

lemma ok_Erase:
  assumes "apart this other V0 H0 N w" "away V0 (fst pos)"
  shows "ok_at (apart this other V0 H0 N) (\<lambda>_. True) (Erase T this pos w)"
  using assms apart_this [OF assms(1)]
  unfolding Erase_def Let_def
  by (auto intro!: ok_steps)

lemma ok_assign_element:
  assumes "apart this other V0 H0 N w" "away V0 (moved_block args)"
  shows "ok_at (apart this other V0 H0 N) (\<lambda>_. True) (assign_element T this index args w)"
proof -
  have "ok_at (apart this other V0 H0 N) (\<lambda>p. away V0 (fst p)) (operator_index this index w)"
    using assms(1) apart_this [OF assms(1)]
    by (auto simp: operator_index_def Let_def intro!: ok_steps)
  then show ?thesis
    unfolding assign_element_def
  proof (rule ok_bnd)
    fix p :: ptr and w'
    assume "apart this other V0 H0 N w'" "away V0 (fst p)"
    with assms(2)
    show "ok_at (apart this other V0 H0 N) (\<lambda>_. True)
            ((case args of CopyOf q \<Rightarrow> copy_assign T p q | MoveOf q \<Rightarrow> move_assign T p q
              | Make x \<Rightarrow> with_local T (Make x) (move_assign T p)) w')"
      by (cases args) (auto simp: moved_block_def intro!: ok_with_local ok_steps)
  qed
qed

lemma ok_run_op:
  assumes "apart this other V0 H0 N w" "away V0 (op_moved_block c)"
  shows "ok_at (apart this other V0 H0 N) (\<lambda>_. True) (run_op T this c w)"
proof (cases c)
  case (OpInsert i a)
  have "ok_at (apart this other V0 H0 N) (\<lambda>_. True)
          (Emplace T this (ptr_add (Vector_begin (vectors w this)) (int i)) a w)"
    using assms OpInsert by (intro ok_Emplace) simp_all
  then show ?thesis
    unfolding OpInsert run_op.simps Insert_def by (rule ok_bnd) (simp add: ret_def)
next
  case (OpErase i)
  have "ok_at (apart this other V0 H0 N) (\<lambda>_. True)
          (Erase T this (ptr_add (Vector_begin (vectors w this)) (int i)) w)"
    using assms apart_this [OF assms(1)] by (intro ok_Erase) simp_all
  then show ?thesis
    unfolding OpErase run_op.simps by (rule ok_bnd) (simp add: ret_def)
qed (use assms in \<open>auto intro!: ok_PushBack ok_PopBack ok_Reserve ok_Resize ok_assign_element\<close>)

lemma separate_apart:
  "separate w a b \<Longrightarrow>
   apart a b (vectors w b) (heap w (the (buffer_m (data_m (vectors w b))))) (next_addr w) w"
  by (auto simp: separate_def apart_def)

lemma apart_separate: "apart a b V0 H0 N w \<Longrightarrow> separate w a b"
  by (auto simp: separate_def apart_def)

lemma separate_sym: "separate w a b \<Longrightarrow> separate w b a"
  by (auto simp: separate_def away_def)

lemma apart_same: "apart a b V0 H0 N w \<Longrightarrow> apart a b V0 H0 N w' \<Longrightarrow> same w w' b"
  by (auto simp: apart_def same_def Size_def storage_def elements_def split: option.splits)

lemma run_op_separate:
  assumes "separate w a b" "foreign w b c"
  shows "ok_at (\<lambda>w'. separate w' a b \<and> same w w' b) (\<lambda>_. True) (run_op T a c w)"
proof -
  note ap = separate_apart [OF assms(1)]
  from assms(2) have "away (vectors w b) (op_moved_block c)" by (simp add: foreign_def)
  from ok_run_op [OF ap this] show ?thesis
    by (rule ok_weaken) (simp_all add: apart_separate apart_same [OF ap])
qed

lemma separate_undisturbed:
  "separate w a b \<Longrightarrow> undisturbed T a b cs w"
proof (induction cs arbitrary: w)
  case Nil
  then show ?case by simp
next
  case (Cons fc cs)
  obtain first c where fc: "fc = (first, c)" by (cases fc)
  show ?case
  proof (cases first)
    case True
    show ?thesis
    proof (cases "foreign w b c \<and> op_fits T c")
      case f: True
      from run_op_separate [OF Cons.prems conjunct1 [OF f], of T] Cons.IH f show ?thesis
        by (cases "run_op T a c w") (simp_all add: fc True)
    qed (auto simp: fc True)
  next
    case False
    show ?thesis
    proof (cases "foreign w a c \<and> op_fits T c")
      case f: True
      from run_op_separate [OF separate_sym [OF Cons.prems] conjunct1 [OF f], of T] Cons.IH f
      show ?thesis
        by (cases "run_op T b c w") (simp_all add: fc False separate_sym)
    qed (auto simp: fc False)
  qed
qed

lemma copy_construct_Normal:
  "copy_construct T p q w = Normal () w' \<Longrightarrow>
   \<not> throws T CopyCtor (calls w CopyCtor) \<and> calls w' CopyCtor = Suc (calls w CopyCtor)"
  by (auto simp: copy_construct_def place_def tick_def set_slot_def
      split: option.splits if_splits)

lemma uninitialized_copy_loop_Normal:
  "uninitialized_loop (\<lambda>k. copy_construct T (dk k) (sk k)) d j n w = Normal () w' \<Longrightarrow>
   i < n \<Longrightarrow> \<not> throws T CopyCtor (calls w CopyCtor + i)"
proof (induction n arbitrary: j w i)
  case 0
  then show ?case by simp
next
  case (Suc n)
  from Suc.prems(1) obtain w1 where s: "copy_construct T (dk j) (sk j) w = Normal () w1"
    and r: "uninitialized_loop (\<lambda>k. copy_construct T (dk k) (sk k)) d (Suc j) n w1 = Normal () w'"
    by (cases "copy_construct T (dk j) (sk j) w")
      (auto split: outcome.splits)
  note c = copy_construct_Normal [OF s]
  show ?case
  proof (cases i)
    case 0
    with c show ?thesis by simp
  next
    case (Suc i')
    with Suc.prems(2) have "i' < n" by simp
    from Suc.IH [OF r this] c Suc show ?thesis by simp
  qed
qed

lemma Vector_copy_ctor_Normal:
  assumes "Vector_copy_ctor T this other w = Normal () w1"
  shows "(size_m (vectors w other) \<noteq> 0 \<longrightarrow> \<not> throws T OperatorNew (calls w OperatorNew)) \<and>
         (\<forall>i<size_m (vectors w other). \<not> throws T CopyCtor (calls w CopyCtor + i))"
proof -
  let ?n = "size_m (vectors w other)"
  from assms obtain d wa where a: "RawMemory_ctor T ?n w = Normal d wa"
    by (cases "RawMemory_ctor T ?n w") (auto simp: Vector_copy_ctor_def Let_def bnd_def)
  then have al: "?n \<noteq> 0 \<longrightarrow> \<not> throws T OperatorNew (calls w OperatorNew)"
    and ca: "calls wa CopyCtor = calls w CopyCtor"
    by (auto simp: RawMemory_ctor_def Allocate_def bnd_def ret_def tick_def split: if_splits)
  let ?wb = "wa\<lparr>vectors := (vectors wa)(this := \<lparr>data_m = d, size_m = ?n\<rparr>)\<rparr>"
  from assms a have
    "catch_rethrow
       (uninitialized_copy_n T (GetAddress (data_m (vectors w other))) ?n (GetAddress d))
       (RawMemory_dtor d) ?wb = Normal () w1"
    by (simp add: Vector_copy_ctor_def Let_def bnd_def set_vector_def)
  then have "uninitialized_copy_n T (GetAddress (data_m (vectors w other))) ?n (GetAddress d) ?wb
             = Normal () w1"
    by (auto simp: catch_rethrow_def split: outcome.splits)
  from uninitialized_copy_loop_Normal [OF this [unfolded uninitialized_copy_n_def]] ca
  have "\<forall>i<?n. \<not> throws T CopyCtor (calls w CopyCtor + i)" by simp
  with al show ?thesis by simp
qed

lemma RawMemory_ctor_now:
  "0 < c \<Longrightarrow> \<not> throws T OperatorNew (calls w OperatorNew) \<Longrightarrow>
   RawMemory_ctor T c w =
     Normal \<lparr>buffer_m = Some (next_addr w), capacity_m = c\<rparr>
       (w\<lparr>heap := (heap w)(next_addr w \<mapsto> replicate c Raw), next_addr := Suc (next_addr w),
          calls := (calls w)(OperatorNew := Suc (calls w OperatorNew))\<rparr>)"
  by (simp add: RawMemory_ctor_def Allocate_def bnd_def ret_def tick_def)

lemma Vector_copy_ctor_ok:
  assumes wf: "wf_world w" and h: "holds w other xs k" and ne: "this \<noteq> other"
    and al: "xs \<noteq> [] \<Longrightarrow> \<not> throws T OperatorNew (calls w OperatorNew)"
    and cp: "\<And>i. i < length xs \<Longrightarrow> \<not> throws T CopyCtor (calls w CopyCtor + i)"
  shows "\<exists>w1. Vector_copy_ctor T this other w = Normal () w1 \<and>
           holds w1 this xs 0 \<and> holds w1 other xs k \<and> wf_world w1 \<and> separate w1 this other"
proof (cases "xs = []")
  case True
  with h have n: "size_m (vectors w other) = 0" by (simp add: holds_def)
  let ?w1 = "w\<lparr>vectors := (vectors w)
                (this := \<lparr>data_m = \<lparr>buffer_m = None, capacity_m = 0\<rparr>, size_m = 0\<rparr>)\<rparr>"
  have "Vector_copy_ctor T this other w = Normal () ?w1"
    by (simp add: Vector_copy_ctor_def Let_def n RawMemory_ctor_def Allocate_def bnd_def ret_def
        set_vector_def catch_rethrow_def uninitialized_copy_n_def)
  moreover have "holds ?w1 this xs 0" using True by (simp add: holds_def)
  moreover have "holds ?w1 other xs k"
    using h ne by (auto simp: holds_def split: option.splits)
  moreover have "wf_world ?w1" using wf by (simp add: wf_world_def)
  moreover have "separate ?w1 this other"
    using h ne wf
    by (auto simp: separate_def away_def below_def holds_def wf_world_def not_le [symmetric]
        split: option.splits)
  ultimately show ?thesis by blast
next
  case False
  with h obtain a where a: "buffer_m (data_m (vectors w other)) = Some a"
    "heap w a = Some (map Obj xs @ replicate k Raw)"
    by (cases "buffer_m (data_m (vectors w other))") (auto simp: holds_def)
  from h have n: "size_m (vectors w other) = length xs" by (simp add: holds_def)
  define b where "b = next_addr w"
  from wf a have ab: "a \<noteq> b" by (auto simp: b_def wf_world_def)
  define d where "d = \<lparr>buffer_m = Some b, capacity_m = length xs\<rparr>"
  define wa where "wa = w\<lparr>heap := (heap w)(b \<mapsto> replicate (length xs) Raw),
     next_addr := Suc b, calls := (calls w)(OperatorNew := Suc (calls w OperatorNew))\<rparr>"
  define wb where "wb = wa\<lparr>vectors := (vectors wa)(this := \<lparr>data_m = d, size_m = length xs\<rparr>)\<rparr>"
  define wc where "wc = wb\<lparr>heap := (heap wb)(b \<mapsto> [] @ map Obj xs @ []),
     live := live wb + int (length xs),
     calls := (calls wb)(CopyCtor := calls wb CopyCtor + length xs)\<rparr>"
  have s1: "RawMemory_ctor T (length xs) w = Normal d wa"
    unfolding d_def wa_def b_def using False al by (intro RawMemory_ctor_now) simp_all
  have s2: "set_vector this \<lparr>data_m = d, size_m = length xs\<rparr> wa = Normal () wb"
    by (simp add: set_vector_def wb_def)
  have hb: "heap wb a = Some ([] @ map Obj xs @ replicate k Raw)"
    "heap wb b = Some ([] @ replicate (length xs) Raw @ [])"
    using a ab by (simp_all add: wb_def wa_def)
  have cb: "\<not> throws T CopyCtor (calls wb CopyCtor + i)" if "i < length xs" for i
    using cp [OF that] by (simp add: wb_def wa_def)
  have s3: "uninitialized_copy_n T (GetAddress (data_m (vectors w other))) (length xs)
              (GetAddress d) wb = Normal () wc"
    unfolding uninitialized_copy_n_def wc_def
    using uninitialized_copy_loop_bounded [OF ab cb hb, of 0 0 0 "(Some b, 0)"]
    by (simp add: GetAddress_def a d_def)
  have run: "Vector_copy_ctor T this other w = Normal () wc"
    unfolding Vector_copy_ctor_def Let_def n
    apply (rule bnd_NormalI, rule s1)
    apply (rule bnd_NormalI, rule s2)
    apply (rule catch_NormalI)
    apply (rule s3)
    done
  have v: "vectors wc = (vectors w)(this := \<lparr>data_m = d, size_m = length xs\<rparr>)"
    and hp: "heap wc = (heap w)(b \<mapsto> map Obj xs)" and na: "next_addr wc = Suc b"
    by (simp_all add: wc_def wb_def wa_def)
  have "holds wc this xs 0" by (simp add: holds_def v hp d_def)
  moreover have "holds wc other xs k" using h ne ab a by (simp add: holds_def v hp)
  moreover have "wf_world wc" using wf by (simp add: wf_world_def hp na b_def)
  moreover have "separate wc this other"
    using ne ab a wf
    by (auto simp: separate_def away_def below_def v na d_def b_def wf_world_def
        not_le [symmetric])
  ultimately show ?thesis using run by blast
qed

section \<open>The claims\<close>

text \<open>
  C1. Move construction and move assignment never fail, touch no element and no
  storage, and leave the destination with the length, capacity and elements the
  source had. Move construction leaves the source with length 0 and capacity 0.
  Move assignment is a swap: the source is left with what the destination held
  before, so it is empty only when the destination was; assigning a vector to
  itself changes nothing.

  The claim as stated (the source of a move assignment has length 0 and capacity
  0) fails for a destination that holds an element.
\<close>

theorem move_assign_counterexample:
  "map_option (\<lambda>w. (Size w 1, Capacity w 1, elements w 1))
     (after (Vector_move_assign 0 1 two_vectors)) = Some (1, 1, [Obj 1])"
  by (simp add: Vector_move_assign_eq after_def two_vectors_def Size_def Capacity_def
      elements_def storage_def)

theorem move_transfers_ownership:
  assumes "this \<noteq> rhs"
  shows "(\<exists>w'. Vector_move_ctor this rhs w = Normal () w' \<and>
            Size w' rhs = 0 \<and> Capacity w' rhs = 0 \<and>
            Size w' this = Size w rhs \<and> Capacity w' this = Capacity w rhs \<and>
            elements w' this = elements w rhs \<and>
            heap w' = heap w \<and> live w' = live w \<and> calls w' = calls w) \<and>
         (\<exists>w'. Vector_move_assign this rhs w = Normal () w' \<and>
            Size w' this = Size w rhs \<and> Capacity w' this = Capacity w rhs \<and>
            elements w' this = elements w rhs \<and>
            Size w' rhs = Size w this \<and> Capacity w' rhs = Capacity w this \<and>
            elements w' rhs = elements w this \<and>
            heap w' = heap w \<and> live w' = live w \<and> calls w' = calls w) \<and>
         Vector_move_assign this this w = Normal () w"
  using assms
  by (simp add: Vector_move_ctor_eq Vector_move_assign_eq Vector_move_assign_def Size_def
      Capacity_def elements_def storage_def Vector_default_def RawMemory_default_def
      cong: option.case_cong)

theorem move_transfers_ownership_witness:
  "(0::nat) \<noteq> 1 \<and>
   (\<exists>w'. Vector_move_ctor 0 1 two_vectors = Normal () w' \<and> Size w' 1 = 0 \<and> Capacity w' 1 = 0 \<and>
      elements w' 0 = [Obj 2]) \<and>
   (\<exists>w'. Vector_move_assign 0 1 two_vectors = Normal () w' \<and> elements w' 0 = [Obj 2] \<and>
      elements w' 1 = [Obj 1])"
proof -
  have "elements two_vectors 0 = [Obj 1]" "elements two_vectors 1 = [Obj 2]"
    by (simp_all add: two_vectors_def elements_def storage_def Size_def)
  with move_transfers_ownership [of 0 1 two_vectors] show ?thesis
    by auto
qed

text \<open>
  C2. Indexing at \<open>i \<ge> Size\<close> stops at the assertion of \<^verbatim>\<open>operator[]\<close>. \<^verbatim>\<open>PopBack\<close>
  on an empty vector and \<^verbatim>\<open>Erase\<close> at or past the end are not checked: the source
  goes on to destroy an object where there is none, or to move an invalid range,
  which the language leaves undefined.

  The claim as stated (each of the three is rejected as a checked fault or an error)
  fails for \<^verbatim>\<open>PopBack\<close> on a default-constructed vector.
\<close>

theorem contract_violation_counterexample:
  "\<not> rejected (PopBack 0 empty_world)"
  by (simp add: rejected_def PopBack_def empty_world_def Vector_default_def RawMemory_default_def
      GetAddress_def ptr_add_def destroy_at_def slot_at_def bnd_def)

theorem contract_violations:
  "(Size w this \<le> i \<longrightarrow> operator_index this i w = AssertFail) \<and>
   (Size w this = 0 \<longrightarrow> PopBack this w = Undefined) \<and>
   (fst pos = buffer_m (data_m (vectors w this)) \<and> int (Size w this) \<le> snd pos \<longrightarrow>
      Erase T this pos w = Undefined)"
  by (auto simp: operator_index_def Size_def PopBack_def Erase_def Let_def bnd_def
      GetAddress_def ptr_add_def destroy_at_def slot_at_def std_move_def range_length_def
      Vector_end_def split: option.splits)

theorem contract_violations_witness:
  "Size empty_world 0 \<le> 0 \<and> operator_index 0 0 empty_world = AssertFail \<and>
   Size empty_world 0 = 0 \<and> PopBack 0 empty_world = Undefined \<and>
   fst (None, 0) = buffer_m (data_m (vectors empty_world 0)) \<and> int (Size empty_world 0) \<le> snd (None :: nat option, 0 :: int) \<and>
   Erase int_type 0 (None, 0) empty_world = Undefined"
  using contract_violations [of empty_world 0 0 "(None, 0)" int_type]
  by (simp add: empty_world_def Size_def Vector_default_def RawMemory_default_def)

text \<open>
  C10. On a non-empty vector that satisfies the invariant, \<^verbatim>\<open>Erase\<close> at the last
  element and \<^verbatim>\<open>PopBack\<close> both return normally and leave the same world: the
  length is one less, the capacity is the same, the elements are the former ones
  without the last, and exactly the slot of the last element has become raw
  memory, one live object fewer.
\<close>

theorem Erase_last_PopBack:
  assumes "invariant w this" and "0 < Size w this"
  shows "\<exists>w'. PopBack this w = Normal () w' \<and>
           Erase T this (ptr_add (Vector_end (vectors w this)) (- 1)) w =
             Normal (ptr_add (Vector_end (vectors w this)) (- 1)) w' \<and>
           Size w' this = Size w this - 1 \<and>
           Capacity w' this = Capacity w this \<and>
           elements w' this = butlast (elements w this) \<and>
           storage w' this = (storage w this)[Size w this - 1 := Raw] \<and>
           live w' = live w - 1 \<and>
           invariant w' this"
proof -
  from assms(1) obtain ys k where h: "holds w this ys k" by (auto simp: invariant_holds)
  with assms(2) have "ys \<noteq> []" by (auto simp: holds_Size)
  then obtain xs x where ys: "ys = xs @ [x]" by (metis rev_exhaust)
  from h ys have "holds w this (xs @ [x]) k" by simp
  from PopBack_holds [OF this] obtain w' where
    w': "PopBack this w = Normal () w'" "holds w' this xs (Suc k)" "live w' = live w - 1"
      "storage w' this = (storage w this)[length xs := Raw]"
    by blast
  have n: "size_m (vectors w this) = Suc (length xs)" using h ys by (simp add: holds_def)
  have "Erase T this (ptr_add (Vector_end (vectors w this)) (- 1)) w =
      bnd (PopBack this) (\<lambda>_. ret (ptr_add (Vector_end (vectors w this)) (- 1))) w"
    using n
    by (simp add: Erase_def PopBack_def Let_def bnd_def Vector_end_def ptr_add_def
        std_move_def range_length_def split: outcome.splits)
  with w'(1) have "Erase T this (ptr_add (Vector_end (vectors w this)) (- 1)) w =
      Normal (ptr_add (Vector_end (vectors w this)) (- 1)) w'"
    by (simp add: bnd_def ret_def)
  moreover have "invariant w' this" using w'(2) by (auto simp: invariant_holds)
  moreover have "elements w' this = butlast (elements w this)"
    using holds_elements [OF w'(2)] holds_elements [OF h] ys by (simp add: map_butlast [symmetric])
  ultimately show ?thesis
    using w' h ys holds_Size [OF w'(2)] holds_Capacity [OF w'(2)] holds_Size [OF h] holds_Capacity [OF h]
    by auto
qed

theorem Erase_last_PopBack_witness:
  "invariant two_vectors 0 \<and> 0 < Size two_vectors 0 \<and>
   (\<exists>w'. PopBack 0 two_vectors = Normal () w' \<and>
      Erase int_type 0 (Some 0, 0) two_vectors = Normal (Some 0, 0) w' \<and>
      Size w' 0 = 0 \<and> Capacity w' 0 = 1 \<and> elements w' 0 = [] \<and> storage w' 0 = [Raw])"
proof -
  have inv: "invariant two_vectors 0"
    by (simp add: invariant_def two_vectors_def)
  have pos: "0 < Size two_vectors 0"
    by (simp add: Size_def two_vectors_def)
  have ev: "Size two_vectors 0 = 1" "Capacity two_vectors 0 = 1"
    "elements two_vectors 0 = [Obj 1]" "storage two_vectors 0 = [Obj 1]"
    "ptr_add (Vector_end (vectors two_vectors 0)) (- 1) = (Some 0, 0)"
    by (simp_all add: Size_def Capacity_def elements_def storage_def two_vectors_def
        Vector_end_def GetAddress_def ptr_add_def)
  from Erase_last_PopBack [OF inv pos, of int_type] ev inv pos show ?thesis
    by auto
qed

text \<open>
  C3. A copy-constructor failure during a forced reallocation does not always roll
  back cleanly. The vector \<open>[1, 2]\<close> is full; \<^verbatim>\<open>Insert\<close> at position 1 of a copy
  of an outside object goes through \<^verbatim>\<open>ReallocateWithCopy\<close>. The copy constructor
  succeeds for the new element and for the prefix \<open>[1]\<close> and throws on the first
  element of the suffix. The vector keeps its elements and its capacity and the
  new storage is released, but the \<^verbatim>\<open>catch\<close> block destroys only the new element:
  the copy of the prefix is never destroyed, and one more object is live after the
  call than before it.
\<close>

theorem ReallocateWithCopy_leaks_prefix:
  "map_option (\<lambda>w. (elements w 0, Capacity w 0, heap w 2, live w - live full_vector))
     (thrown (Insert (copy_throws_at 2) 0 (Some 0, 1) (CopyOf (Some 1, 0)) full_vector))
   = Some ([Obj 1, Obj 2], 2, None, 1)"
  by (simp add: model_defs copy_throws_at_def full_vector_def numeral_2_eq_2)

text \<open>
  C9. A failed \<^verbatim>\<open>Emplace\<close> can leave a constructed object beyond the length. The
  vector \<open>[1, 2]\<close> has capacity 4; \<^verbatim>\<open>Emplace\<close> at position 0 move-constructs the
  last element into slot 2, shifts the rest with one move assignment, and then
  move-assigns the temporary into position 0 outside the \<^verbatim>\<open>try\<close> block. When
  that assignment throws, the length is still 2 and slot 2 holds a live object:
  the invariant is broken.
\<close>

theorem Emplace_failure_breaks_invariant:
  "map_option (\<lambda>w. (invariant w 0, Size w 0, storage w 0))
     (thrown (Emplace (move_assign_throws_at 1) 0 (Some 0, 0) (Make 7) spare_vector))
   = Some (False, 2, [Obj 0, Obj 1, Obj 2, Raw])"
  by (simp add: model_defs move_assign_throws_at_def spare_vector_def numeral_2_eq_2)

text \<open>
  C6. In a well-formed world, on a vector that satisfies the invariant, with an
  element type that does not fail during the call and an argument that denotes a
  value \<open>x\<close> (a reference to a live object, or constructor arguments) and is not an
  rvalue reference into the vector's own storage: \<^verbatim>\<open>Insert\<close> at position
  \<open>p \<le> Size\<close> returns normally, the elements are the former elements before \<open>p\<close>,
  then \<open>x\<close>, then the former elements from \<open>p\<close> on, the length has grown by one, the
  invariant holds again, and the returned position is that of the new element. The
  witness is the scenario of the specification: \<open>[1, 2, 3, 4]\<close>, \<^verbatim>\<open>Insert(pos = 2, 99)\<close>.
\<close>

theorem Insert_places_element:
  assumes "wf_world w" and "invariant w this" and "no_failure T w"
    and "arg_value w args = Some x" and "external w this args" and "p \<le> Size w this"
  shows "\<exists>w'. Insert T this (ptr_add (Vector_begin (vectors w this)) (int p)) args w =
              Normal (ptr_add (Vector_begin (vectors w' this)) (int p)) w' \<and>
           invariant w' this \<and> Size w' this = Size w this + 1 \<and>
           elements w' this = take p (elements w this) @ [Obj x] @ drop p (elements w this) \<and>
           deref w' (ptr_add (Vector_begin (vectors w' this)) (int p)) = Some x"
proof -
  from assms(2) obtain xs k where h: "holds w this xs k" by (auto simp: invariant_holds)
  have p: "p \<le> length xs" using assms(6) h by (simp add: holds_Size)
  from Emplace_ok [OF assms(1) h assms(3,4,5) p] obtain w' k' where
    w': "Emplace T this (ptr_add (Vector_begin (vectors w this)) (int p)) args w =
              Normal (ptr_add (Vector_begin (vectors w' this)) (int p)) w'"
      "holds w' this (take p xs @ [x] @ drop p xs) k'"
    by blast
  have "deref w' (buffer_m (data_m (vectors w' this)), int p) = Some ((take p xs @ [x] @ drop p xs) ! p)"
    using p by (intro holds_deref [OF w'(2)]) simp
  then have "deref w' (ptr_add (Vector_begin (vectors w' this)) (int p)) = Some x"
    using p by (simp add: Vector_begin_def GetAddress_def ptr_add_def nth_append)
  then show ?thesis
    using w' invariant_elements [OF h] invariant_elements [OF w'(2)]
    by (intro exI [of _ w']) (simp add: Insert_def take_map drop_map)
qed

theorem Insert_places_element_witness:
  "wf_world four_elements \<and> invariant four_elements 0 \<and> no_failure int_type four_elements \<and>
   arg_value four_elements (Make 99) = Some 99 \<and> external four_elements 0 (Make 99) \<and>
   2 \<le> Size four_elements 0 \<and> elements four_elements 0 = [Obj 1, Obj 2, Obj 3, Obj 4] \<and>
   (\<exists>w'. Insert int_type 0 (Some 0, 2) (Make 99) four_elements =
            Normal (ptr_add (Vector_begin (vectors w' 0)) 2) w' \<and>
      Size w' 0 = 5 \<and> elements w' 0 = [Obj 1, Obj 2, Obj 99, Obj 3, Obj 4])"
proof -
  have 1: "wf_world four_elements" by (simp add: wf_world_def four_elements_def)
  have 2: "invariant four_elements 0" by (simp add: invariant_def four_elements_def)
  have 3: "no_failure int_type four_elements" by (simp add: no_failure_def int_type_def)
  have 4: "arg_value four_elements (Make 99) = Some 99" by (simp add: arg_value_def)
  have 5: "external four_elements 0 (Make 99)" by (simp add: external_def moved_block_def)
  have 6: "2 \<le> Size four_elements 0" by (simp add: Size_def four_elements_def)
  have e: "elements four_elements 0 = [Obj 1, Obj 2, Obj 3, Obj 4]" "Size four_elements 0 = 4"
    "ptr_add (Vector_begin (vectors four_elements 0)) (int 2) = (Some 0, 2)"
    by (simp_all add: elements_def storage_def Size_def four_elements_def Vector_begin_def
        GetAddress_def ptr_add_def)
  from Insert_places_element [OF 1 2 3 4 5 6] e 1 2 3 4 5 6 show ?thesis
    by auto
qed

text \<open>
  C7. Inserting a copy of the vector's own element \<open>i\<close> at position \<open>p\<close> stores the value
  that element had before the call, whatever the capacity: the theorem covers the
  branch with spare capacity and the branch that reallocates, and the witness runs
  one vector through each.
\<close>

theorem self_insert_reads_old_value:
  assumes "wf_world w" and "invariant w this" and "no_failure T w"
    and "i < Size w this" and "p \<le> Size w this"
  shows "\<exists>w'. Insert T this (ptr_add (Vector_begin (vectors w this)) (int p))
              (CopyOf (ptr_add (Vector_begin (vectors w this)) (int i))) w =
              Normal (ptr_add (Vector_begin (vectors w' this)) (int p)) w' \<and>
           elements w' this ! p = elements w this ! i \<and>
           elements w' this =
             take p (elements w this) @ [elements w this ! i] @ drop p (elements w this)"
proof -
  from assms(2) obtain xs k where h: "holds w this xs k" by (auto simp: invariant_holds)
  have i: "i < length xs" and p: "p \<le> length xs" using assms(4,5) h by (simp_all add: holds_Size)
  let ?args = "CopyOf (ptr_add (Vector_begin (vectors w this)) (int i))"
  have av: "arg_value w ?args = Some (xs ! i)"
    using holds_deref [OF h i] by (simp add: arg_value_def Vector_begin_def GetAddress_def ptr_add_def)
  have ext: "external w this ?args" by (simp add: external_def moved_block_def)
  from Emplace_ok [OF assms(1) h assms(3) av ext p] obtain w' k' where
    w': "Emplace T this (ptr_add (Vector_begin (vectors w this)) (int p)) ?args w =
              Normal (ptr_add (Vector_begin (vectors w' this)) (int p)) w'"
      "holds w' this (take p xs @ [xs ! i] @ drop p xs) k'"
    by blast
  show ?thesis
    using w' invariant_elements [OF h] invariant_elements [OF w'(2)] i p
    by (intro exI [of _ w']) (simp add: Insert_def take_map drop_map nth_append)
qed

theorem self_insert_reads_old_value_witness:
  "wf_world spare_vector \<and> invariant spare_vector 0 \<and> no_failure int_type spare_vector \<and>
   0 < Size spare_vector 0 \<and> 1 \<le> Size spare_vector 0 \<and>
   Size spare_vector 0 < Capacity spare_vector 0 \<and>
   (\<exists>w'. Insert int_type 0 (Some 0, 1) (CopyOf (Some 0, 0)) spare_vector =
            Normal (ptr_add (Vector_begin (vectors w' 0)) 1) w' \<and>
      elements w' 0 = [Obj 1, Obj 1, Obj 2]) \<and>
   wf_world full_vector \<and> invariant full_vector 0 \<and> no_failure int_type full_vector \<and>
   0 < Size full_vector 0 \<and> 1 \<le> Size full_vector 0 \<and>
   Size full_vector 0 = Capacity full_vector 0 \<and>
   (\<exists>w'. Insert int_type 0 (Some 0, 1) (CopyOf (Some 0, 0)) full_vector =
            Normal (ptr_add (Vector_begin (vectors w' 0)) 1) w' \<and>
      elements w' 0 = [Obj 1, Obj 1, Obj 2])"
proof -
  have s: "wf_world spare_vector" "invariant spare_vector 0" "no_failure int_type spare_vector"
    "0 < Size spare_vector 0" "1 \<le> Size spare_vector 0"
    by (simp_all add: wf_world_def invariant_def no_failure_def int_type_def Size_def
        spare_vector_def)
  have f: "wf_world full_vector" "invariant full_vector 0" "no_failure int_type full_vector"
    "0 < Size full_vector 0" "1 \<le> Size full_vector 0"
    by (simp_all add: wf_world_def invariant_def no_failure_def int_type_def Size_def
        full_vector_def)
  have es: "elements spare_vector 0 = [Obj 1, Obj 2]" "Size spare_vector 0 = 2"
    "Capacity spare_vector 0 = 4"
    "ptr_add (Vector_begin (vectors spare_vector 0)) (int 1) = (Some 0, 1)"
    "ptr_add (Vector_begin (vectors spare_vector 0)) (int 0) = (Some 0, 0)"
    by (simp_all add: elements_def storage_def Size_def Capacity_def spare_vector_def
        Vector_begin_def GetAddress_def ptr_add_def)
  have ef: "elements full_vector 0 = [Obj 1, Obj 2]" "Size full_vector 0 = 2"
    "Capacity full_vector 0 = 2"
    "ptr_add (Vector_begin (vectors full_vector 0)) (int 1) = (Some 0, 1)"
    "ptr_add (Vector_begin (vectors full_vector 0)) (int 0) = (Some 0, 0)"
    by (simp_all add: elements_def storage_def Size_def Capacity_def full_vector_def
        Vector_begin_def GetAddress_def ptr_add_def)
  from self_insert_reads_old_value [OF s] self_insert_reads_old_value [OF f] es ef s f
  show ?thesis
    by auto
qed

text \<open>
  C4. In every reallocation (\<^verbatim>\<open>Reserve\<close> beyond the capacity, to a capacity whose
  byte count fits \<^verbatim>\<open>size_t\<close>; \<^verbatim>\<open>EmplaceBack\<close> and \<^verbatim>\<open>Emplace\<close> on a full vector) that
  runs without failure, the existing elements
  are transferred by the move constructor when the element type is
  nothrow-move-constructible or not copy-constructible, and by the copy constructor
  otherwise: the move and copy constructors are invoked exactly that many times
  more, besides the one construction of the new element from its argument.

  The claim as stated (moved if and only if move construction cannot fail) fails
  for a move-only type whose move constructor may throw: its elements are moved.
\<close>

theorem move_only_counterexample:
  "\<not> nothrow_move_constructible move_only_type \<and>
   map_option (\<lambda>w. (calls w MoveCtor, calls w CopyCtor, elements w 0))
     (after (Reserve move_only_type 0 4 full_vector)) = Some (2, 0, [Obj 1, Obj 2])"
  by (simp add: model_defs move_only_type_def full_vector_def eval_nat_numeral)

theorem reallocation_moves_or_copies:
  assumes "wf_world w" and "invariant w this" and "no_failure T w"
  shows "(Capacity w this < n \<and> fits T n \<longrightarrow>
           (\<exists>w'. Reserve T this n w = Normal () w' \<and>
              elements w' this = elements w this \<and> Capacity w' this = n \<and>
              calls w' MoveCtor = calls w MoveCtor +
                (if nothrow_move_constructible T \<or> \<not> copy_constructible T then Size w this else 0) \<and>
              calls w' CopyCtor = calls w CopyCtor +
                (if nothrow_move_constructible T \<or> \<not> copy_constructible T then 0 else Size w this))) \<and>
         (Size w this = Capacity w this \<and> arg_value w args = Some x \<and> external w this args \<longrightarrow>
           (\<exists>w' r. EmplaceBack T this args w = Normal r w' \<and>
              calls w' MoveCtor = calls w MoveCtor + arg_calls args MoveCtor +
                (if nothrow_move_constructible T \<or> \<not> copy_constructible T then Size w this else 0) \<and>
              calls w' CopyCtor = calls w CopyCtor + arg_calls args CopyCtor +
                (if nothrow_move_constructible T \<or> \<not> copy_constructible T then 0 else Size w this))) \<and>
         (Size w this = Capacity w this \<and> arg_value w args = Some x \<and> external w this args \<and>
          p \<le> Size w this \<longrightarrow>
           (\<exists>w' r. Emplace T this (ptr_add (Vector_begin (vectors w this)) (int p)) args w = Normal r w' \<and>
              calls w' MoveCtor = calls w MoveCtor + arg_calls args MoveCtor +
                (if nothrow_move_constructible T \<or> \<not> copy_constructible T then Size w this else 0) \<and>
              calls w' CopyCtor = calls w CopyCtor + arg_calls args CopyCtor +
                (if nothrow_move_constructible T \<or> \<not> copy_constructible T then 0 else Size w this)))"
proof -
  from assms(2) obtain xs k where h: "holds w this xs k" by (auto simp: invariant_holds)
  note ie = invariant_elements [OF h]
  have 1: "\<exists>w'. Reserve T this n w = Normal () w' \<and>
              elements w' this = elements w this \<and> Capacity w' this = n \<and>
              calls w' MoveCtor = calls w MoveCtor +
                (if nothrow_move_constructible T \<or> \<not> copy_constructible T then Size w this else 0) \<and>
              calls w' CopyCtor = calls w CopyCtor +
                (if nothrow_move_constructible T \<or> \<not> copy_constructible T then 0 else Size w this)"
    if n: "Capacity w this < n"
  proof -
    from n ie have "length xs + k < n" by simp
    from Reserve_grow [OF assms(1) h assms(3) this] obtain w' where
      w': "Reserve T this n w = Normal () w'" "holds w' this xs (n - length xs)"
        "\<forall>\<kappa>. calls w' \<kappa> = calls w \<kappa> + (if \<kappa> = OperatorNew then 1 else 0) +
              (if \<kappa> = transfer_ctor T then length xs else 0)"
      by blast
    from w'(3) have "\<forall>\<kappa>. calls w' \<kappa> = calls w \<kappa> + (\<lambda>_. 0) \<kappa> + (if \<kappa> = OperatorNew then 1 else 0) +
              (if \<kappa> = transfer_ctor T then length xs else 0)" by simp
    from transfer_counts [OF this] w'(1) invariant_elements [OF w'(2)] ie \<open>length xs + k < n\<close>
    show ?thesis by (intro exI [of _ w']) simp
  qed
  have 2: "\<exists>w' r. EmplaceBack T this args w = Normal r w' \<and>
              calls w' MoveCtor = calls w MoveCtor + arg_calls args MoveCtor +
                (if nothrow_move_constructible T \<or> \<not> copy_constructible T then Size w this else 0) \<and>
              calls w' CopyCtor = calls w CopyCtor + arg_calls args CopyCtor +
                (if nothrow_move_constructible T \<or> \<not> copy_constructible T then 0 else Size w this)"
    if f: "Size w this = Capacity w this" and av: "arg_value w args = Some x"
      and ext: "external w this args"
  proof -
    from f ie have k: "k = 0" by simp
    from Emplace_full [OF assms(1) h [unfolded k] assms(3) av ext, of "length xs"] obtain w' r where
      w': "Emplace T this (ptr_add (Vector_begin (vectors w this)) (int (length xs))) args w = Normal r w'"
        "\<forall>\<kappa>. calls w' \<kappa> = calls w \<kappa> + arg_calls args \<kappa> +
              (if \<kappa> = OperatorNew then 1 else 0) +
              (if \<kappa> = transfer_ctor T then length xs else 0)"
      by blast
    have "ptr_add (Vector_begin (vectors w this)) (int (length xs)) = Vector_end (vectors w this)"
      using h by (simp add: Vector_begin_def Vector_end_def holds_def)
    then have "EmplaceBack T this args w = Normal r w'"
      using w'(1) by (simp add: Emplace_def)
    with transfer_counts [OF w'(2)] ie show ?thesis by auto
  qed
  have 3: "\<exists>w' r. Emplace T this (ptr_add (Vector_begin (vectors w this)) (int p)) args w = Normal r w' \<and>
              calls w' MoveCtor = calls w MoveCtor + arg_calls args MoveCtor +
                (if nothrow_move_constructible T \<or> \<not> copy_constructible T then Size w this else 0) \<and>
              calls w' CopyCtor = calls w CopyCtor + arg_calls args CopyCtor +
                (if nothrow_move_constructible T \<or> \<not> copy_constructible T then 0 else Size w this)"
    if f: "Size w this = Capacity w this" and av: "arg_value w args = Some x"
      and ext: "external w this args" and p: "p \<le> Size w this"
  proof -
    from f ie have k: "k = 0" by simp
    from p ie have "p \<le> length xs" by simp
    from Emplace_full [OF assms(1) h [unfolded k] assms(3) av ext this] obtain w' r where
      w': "Emplace T this (ptr_add (Vector_begin (vectors w this)) (int p)) args w = Normal r w'"
        "\<forall>\<kappa>. calls w' \<kappa> = calls w \<kappa> + arg_calls args \<kappa> +
              (if \<kappa> = OperatorNew then 1 else 0) +
              (if \<kappa> = transfer_ctor T then length xs else 0)"
      by blast
    with transfer_counts [OF w'(2)] ie show ?thesis by auto
  qed
  from 1 2 3 show ?thesis by blast
qed

theorem reallocation_moves_or_copies_witness:
  "wf_world full_vector \<and> invariant full_vector 0 \<and> no_failure cautious_type full_vector \<and>
   Capacity full_vector 0 < 4 \<and> fits cautious_type 4 \<and>
   Size full_vector 0 = Capacity full_vector 0 \<and>
   arg_value full_vector (CopyOf (Some 1, 0)) = Some 99 \<and>
   external full_vector 0 (CopyOf (Some 1, 0)) \<and> 1 \<le> Size full_vector 0 \<and>
   (\<exists>w'. Reserve cautious_type 0 4 full_vector = Normal () w' \<and>
      calls w' MoveCtor = 0 \<and> calls w' CopyCtor = 2) \<and>
   (\<exists>w' r. EmplaceBack cautious_type 0 (CopyOf (Some 1, 0)) full_vector = Normal r w' \<and>
      calls w' MoveCtor = 0 \<and> calls w' CopyCtor = 3) \<and>
   (\<exists>w' r. Emplace cautious_type 0 (Some 0, 1) (CopyOf (Some 1, 0)) full_vector = Normal r w' \<and>
      calls w' MoveCtor = 0 \<and> calls w' CopyCtor = 3)"
proof -
  have 1: "wf_world full_vector" by (simp add: wf_world_def full_vector_def)
  have 2: "invariant full_vector 0" by (simp add: invariant_def full_vector_def)
  have 3: "no_failure cautious_type full_vector" by (simp add: no_failure_def cautious_type_def)
  have e: "Capacity full_vector 0 = 2" "Size full_vector 0 = 2" "fits cautious_type 4"
    "arg_value full_vector (CopyOf (Some 1, 0)) = Some 99"
    "external full_vector 0 (CopyOf (Some 1, 0))"
    "ptr_add (Vector_begin (vectors full_vector 0)) (int 1) = (Some 0, 1)"
    "calls full_vector = (\<lambda>_. 0)"
    "nothrow_move_constructible cautious_type \<or> \<not> copy_constructible cautious_type \<longleftrightarrow> False"
    "arg_calls (CopyOf (Some 1, 0) :: int arg) MoveCtor = 0"
    "arg_calls (CopyOf (Some 1, 0) :: int arg) CopyCtor = 1"
    by (simp_all add: Capacity_def Size_def arg_value_def deref_def slot_at_def external_def
        moved_block_def Vector_begin_def GetAddress_def ptr_add_def arg_calls_def
        cautious_type_def full_vector_def fits_def)
  from reallocation_moves_or_copies [OF 1 2 3, of 4 "CopyOf (Some 1, 0)" 99 1] e 1 2 3
  show ?thesis
    by (simp add: eval_nat_numeral, blast)
qed

text \<open>
  C5. Starting from a default-constructed vector in a well-formed world, with no
  failure, any number of appends returns normally. For the last of them: the
  capacity does not shrink; if the vector was full it becomes \<open>max 1 (2 * Size)\<close>,
  otherwise it stays; afterwards the capacity is a power of two and at least the
  number of appends, and the elements are the appended values in order.
\<close>

theorem append_growth:
  assumes "wf_world w" and "vectors w this = Vector_default" and "no_failure T w"
  shows "\<exists>w1 w'. appends T this (map Make ys) w = Normal () w1 \<and>
           PushBack T this (Make y) w1 = Normal () w' \<and>
           appends T this (map Make (ys @ [y])) w = Normal () w' \<and>
           Size w1 this = length ys \<and> Size w' this = length ys + 1 \<and>
           elements w' this = map Obj (ys @ [y]) \<and>
           Capacity w1 this \<le> Capacity w' this \<and>
           Capacity w' this =
             (if Size w1 this = Capacity w1 this then max 1 (2 * Size w1 this)
              else Capacity w1 this) \<and>
           (\<exists>j. Capacity w' this = 2 ^ j) \<and> length (ys @ [y]) \<le> Capacity w' this"
proof -
  have h0: "holds w this [] 0"
    using assms(2) by (simp add: holds_def Vector_default_def RawMemory_default_def)
  from appends_from_empty [OF assms(1) h0 assms(3), of ys] obtain w1 k where
    w1: "appends T this (map Make ys) w = Normal () w1" "wf_world w1"
    "no_failure T w1" "holds w1 this ys k"
    by blast
  let ?k' = "if k = 0 then max 1 (2 * length ys) - length ys - 1 else k - 1"
  from PushBack_ok [OF w1(2,4,3)] obtain w' where
    w': "PushBack T this (Make y) w1 = Normal () w'" "holds w' this (ys @ [y]) ?k'"
    by blast
  have a: "appends T this (map Make (ys @ [y])) w = Normal () w'"
    using w1(1) w'(1) by (simp add: appends_append)
  from appends_from_empty [OF assms(1) h0 assms(3), of "ys @ [y]"] a obtain k2 j where
    "holds w' this (ys @ [y]) k2" "length (ys @ [y]) + k2 = 2 ^ j"
    by auto
  then have p2: "Capacity w' this = 2 ^ j" by (simp add: holds_Capacity)
  have c1: "Capacity w1 this = length ys + k" "Size w1 this = length ys"
    using w1(4) by (simp_all add: holds_Capacity holds_Size)
  have c2: "Capacity w' this = length ys + 1 + ?k'" "Size w' this = length ys + 1"
    "elements w' this = map Obj (ys @ [y])"
    using w'(2) by (simp_all add: holds_Capacity holds_Size holds_elements)
  have f1: "Capacity w1 this \<le> Capacity w' this" using c1 c2 by simp
  have f2: "Capacity w' this =
      (if Size w1 this = Capacity w1 this then max 1 (2 * Size w1 this) else Capacity w1 this)"
    using c1 c2 by (cases ys) (auto simp: max_def)
  have f3: "\<exists>j. Capacity w' this = 2 ^ j" using p2 by blast
  have f4: "length (ys @ [y]) \<le> Capacity w' this" using c2 by simp
  show ?thesis
    using w1(1) w'(1) a c1(2) c2(2,3) f1 f2 f3 f4 by blast
qed

theorem append_growth_witness:
  "wf_world empty_world \<and> vectors empty_world 0 = Vector_default \<and>
   no_failure int_type empty_world \<and>
   (\<exists>w1 w'. appends int_type 0 (map Make [1, 2]) empty_world = Normal () w1 \<and>
      PushBack int_type 0 (Make 3) w1 = Normal () w' \<and>
      Capacity w1 0 = 2 \<and> Capacity w' 0 = 4 \<and> elements w' 0 = [Obj 1, Obj 2, Obj 3])"
proof -
  have 1: "wf_world empty_world" by (simp add: wf_world_def empty_world_def)
  have 2: "vectors empty_world 0 = Vector_default" by (simp add: empty_world_def)
  have 3: "no_failure int_type empty_world" by (simp add: no_failure_def int_type_def)
  have e: "Size empty_world 0 = 0" "Capacity empty_world 0 = 0"
    by (simp_all add: empty_world_def Size_def Capacity_def Vector_default_def RawMemory_default_def)
  from append_growth [OF 1 2 3, of "[]" 1] obtain a0 a1 where
    A: "appends int_type 0 (map Make []) empty_world = Normal () a0"
      "appends int_type 0 (map Make ([] @ [1])) empty_world = Normal () a1"
      "Size a1 0 = length ([]::int list) + 1"
      "Capacity a1 0 = (if Size a0 0 = Capacity a0 0 then max 1 (2 * Size a0 0) else Capacity a0 0)"
    by blast
  from A(1) have "a0 = empty_world" by simp
  with A e have a1: "Size a1 0 = 1" "Capacity a1 0 = 1" by simp_all
  from append_growth [OF 1 2 3, of "[1]" 2] obtain b0 b1 where
    B: "appends int_type 0 (map Make [1]) empty_world = Normal () b0"
      "appends int_type 0 (map Make ([1] @ [2])) empty_world = Normal () b1"
      "Size b1 0 = length [1::int] + 1"
      "Capacity b1 0 = (if Size b0 0 = Capacity b0 0 then max 1 (2 * Size b0 0) else Capacity b0 0)"
    by blast
  from B(1) A(2) have "b0 = a1" by simp
  with B a1 have b1: "Size b1 0 = 2" "Capacity b1 0 = 2" by simp_all
  from append_growth [OF 1 2 3, of "[1, 2]" 3] obtain c0 c1 where
    C: "appends int_type 0 (map Make [1, 2]) empty_world = Normal () c0"
      "PushBack int_type 0 (Make 3) c0 = Normal () c1"
      "elements c1 0 = map Obj ([1, 2] @ [3])"
      "Capacity c1 0 = (if Size c0 0 = Capacity c0 0 then max 1 (2 * Size c0 0) else Capacity c0 0)"
    by blast
  from C(1) B(2) have "c0 = b1" by simp
  with C b1 have "Capacity c0 0 = 2" "Capacity c1 0 = 4" "elements c1 0 = [Obj 1, Obj 2, Obj 3]"
    by simp_all
  with C(1,2) 1 2 3 show ?thesis by blast
qed

text \<open>
  C8. In a well-formed world, copy-constructing a vector at a new address from a
  vector that satisfies the invariant returns normally when nothing fails, and
  whenever it returns: the copy satisfies the invariant, has the length and the
  elements of the source, a capacity equal to the source's length, and storage
  of its own; the source is as before; and from then on, in every sequence of
  \<^verbatim>\<open>PushBack\<close>, \<^verbatim>\<open>PopBack\<close>, \<^verbatim>\<open>Insert\<close>, \<^verbatim>\<open>Erase\<close>, \<^verbatim>\<open>Reserve\<close>, \<^verbatim>\<open>Resize\<close> and element
  assignments applied in any order to the copy or to the source, each operation,
  whether it returns or throws, leaves the length and the elements of the other
  vector unchanged (\<open>undisturbed\<close>). An operation that is handed an rvalue
  reference to an element of the other vector is the caller's own change of that
  vector and ends the sequence, and so does a \<^verbatim>\<open>Reserve\<close> or \<^verbatim>\<open>Resize\<close> to a count
  whose byte count does not fit \<^verbatim>\<open>size_t\<close>. The witness copies \<open>[1, 2]\<close>, appends to the
  copy an object moved from outside both vectors, and erases the first element of
  the source; the sequence goes on with a \<^verbatim>\<open>Reserve\<close> of 8 elements and an
  assignment.
\<close>

theorem copy_is_independent:
  assumes "wf_world w" and "invariant w other" and "this \<noteq> other"
  shows "(no_failure T w \<longrightarrow> after (Vector_copy_ctor T this other w) \<noteq> None) \<and>
         (\<forall>w1. after (Vector_copy_ctor T this other w) = Some w1 \<longrightarrow>
            invariant w1 this \<and> Size w1 this = Size w other \<and>
            elements w1 this = elements w other \<and> Capacity w1 this = Size w other \<and>
            (\<forall>a. buffer_m (data_m (vectors w1 this)) = Some a \<longrightarrow>
                 buffer_m (data_m (vectors w1 other)) \<noteq> Some a) \<and>
            invariant w1 other \<and> Size w1 other = Size w other \<and>
            elements w1 other = elements w other \<and> Capacity w1 other = Capacity w other \<and>
            (\<forall>cs. undisturbed T this other cs w1))"
proof (intro conjI impI allI)
  from assms(2) obtain xs k where h: "holds w other xs k" by (auto simp: invariant_holds)
  note o = invariant_elements [OF h]
  {
    assume nf: "no_failure T w"
    then have "\<exists>w1. Vector_copy_ctor T this other w = Normal () w1"
      using Vector_copy_ctor_ok [OF assms(1) h assms(3), of T]
      by (auto simp: no_failure_def)
    then show "after (Vector_copy_ctor T this other w) \<noteq> None"
      by (auto simp: after_def)
  }
  fix w1
  assume "after (Vector_copy_ctor T this other w) = Some w1"
  then have run: "Vector_copy_ctor T this other w = Normal () w1"
    by (cases "Vector_copy_ctor T this other w") (simp_all add: after_def)
  from Vector_copy_ctor_Normal [OF run] h
  have al: "xs \<noteq> [] \<Longrightarrow> \<not> throws T OperatorNew (calls w OperatorNew)"
    and cp: "\<And>i. i < length xs \<Longrightarrow> \<not> throws T CopyCtor (calls w CopyCtor + i)"
    by (simp_all add: holds_def)
  from Vector_copy_ctor_ok [OF assms(1) h assms(3) al cp] run
  have h1: "holds w1 this xs 0" and h2: "holds w1 other xs k" and s: "separate w1 this other"
    by auto
  note a = invariant_elements [OF h1] and b = invariant_elements [OF h2]
  show "invariant w1 this" "Size w1 this = Size w other" "elements w1 this = elements w other"
    "Capacity w1 this = Size w other" "invariant w1 other" "Size w1 other = Size w other"
    "elements w1 other = elements w other" "Capacity w1 other = Capacity w other"
    using a b o by simp_all
  show "buffer_m (data_m (vectors w1 other)) \<noteq> Some c"
    if "buffer_m (data_m (vectors w1 this)) = Some c" for c
    using s that by (auto simp: separate_def away_def)
  show "undisturbed T this other cs w1" for cs
    by (rule separate_undisturbed [OF s])
qed

theorem copy_is_independent_witness:
  "wf_world full_vector \<and> invariant full_vector 0 \<and> (1::nat) \<noteq> 0 \<and>
   no_failure int_type full_vector \<and> elements full_vector 0 = [Obj 1, Obj 2] \<and>
   (\<exists>w1. after (Vector_copy_ctor int_type 1 0 full_vector) = Some w1 \<and>
      elements w1 1 = [Obj 1, Obj 2] \<and> Capacity w1 1 = 2 \<and>
      buffer_m (data_m (vectors w1 1)) = Some 2 \<and> buffer_m (data_m (vectors w1 0)) = Some 0 \<and>
      undisturbed int_type 1 0
        [(True, OpPushBack (MoveOf (Some 1, 0))), (False, OpErase 0), (True, OpReserve 8),
         (True, OpAssign 0 (Make 5))] w1 \<and>
      foreign w1 0 (OpPushBack (MoveOf (Some 1, 0))) \<and> op_fits int_type (OpReserve 8) \<and>
      (\<exists>w2. after (run_op int_type 1 (OpPushBack (MoveOf (Some 1, 0))) w1) = Some w2 \<and>
         elements w2 1 = [Obj 1, Obj 2, Obj 99] \<and> elements w2 0 = [Obj 1, Obj 2] \<and>
         foreign w2 1 (OpErase 0) \<and>
         (\<exists>w3. after (run_op int_type 0 (OpErase 0) w2) = Some w3 \<and>
            elements w3 0 = [Obj 2] \<and> elements w3 1 = [Obj 1, Obj 2, Obj 99])))"
proof -
  have 1: "wf_world full_vector" by (simp add: wf_world_def full_vector_def)
  have 2: "invariant full_vector 0" by (simp add: invariant_def full_vector_def)
  have 3: "(1::nat) \<noteq> 0" by simp
  have 4: "no_failure int_type full_vector" by (simp add: no_failure_def int_type_def)
  have 5: "elements full_vector 0 = [Obj 1, Obj 2]"
    by (simp add: elements_def storage_def Size_def full_vector_def)
  define W where "W = the (after (Vector_copy_ctor int_type 1 0 full_vector))"
  note t = copy_is_independent [OF 1 2 3, of int_type]
  from t 4 have c: "after (Vector_copy_ctor int_type 1 0 full_vector) = Some W"
    by (auto simp: W_def)
  with t have u: "undisturbed int_type 1 0 cs W" and e: "elements W 1 = elements full_vector 0"
    and k: "Capacity W 1 = Size full_vector 0" for cs
    by blast+
  have b: "buffer_m (data_m (vectors W 1)) = Some 2" "buffer_m (data_m (vectors W 0)) = Some 0"
    by (simp_all add: W_def model_defs full_vector_def int_type_def eval_nat_numeral)
  have f: "foreign W 0 (OpPushBack (MoveOf (Some 1, 0)))"
    by (simp add: foreign_def away_def moved_block_def b)
  define W2 where "W2 = the (after (run_op int_type 1 (OpPushBack (MoveOf (Some 1, 0))) W))"
  have r2: "after (run_op int_type 1 (OpPushBack (MoveOf (Some 1, 0))) W) = Some W2"
    "elements W2 1 = [Obj 1, Obj 2, Obj 99]" "elements W2 0 = [Obj 1, Obj 2]"
    by (simp_all add: W2_def W_def model_defs elements_def storage_def Size_def full_vector_def
        int_type_def eval_nat_numeral)
  have f2: "foreign W2 1 (OpErase 0)"
    by (simp add: foreign_def away_def)
  have f3: "op_fits int_type (OpReserve 8)"
    by (simp add: fits_def int_type_def)
  have r3: "\<exists>w3. after (run_op int_type 0 (OpErase 0) W2) = Some w3 \<and>
            elements w3 0 = [Obj 2] \<and> elements w3 1 = [Obj 1, Obj 2, Obj 99]"
    by (simp add: W2_def W_def model_defs elements_def storage_def Size_def full_vector_def
        int_type_def eval_nat_numeral)
  have sz: "Size full_vector 0 = 2" by (simp add: Size_def full_vector_def)
  note u' = u [of "[(True, OpPushBack (MoveOf (Some 1, 0))), (False, OpErase 0), (True, OpReserve 8),
         (True, OpAssign 0 (Make 5))]"]
  from r2 f2 r3 have inner:
    "\<exists>w2. after (run_op int_type 1 (OpPushBack (MoveOf (Some 1, 0))) W) = Some w2 \<and>
         elements w2 1 = [Obj 1, Obj 2, Obj 99] \<and> elements w2 0 = [Obj 1, Obj 2] \<and>
         foreign w2 1 (OpErase 0) \<and>
         (\<exists>w3. after (run_op int_type 0 (OpErase 0) w2) = Some w3 \<and>
            elements w3 0 = [Obj 2] \<and> elements w3 1 = [Obj 1, Obj 2, Obj 99])"
    by blast
  from c u' e [unfolded 5] k [unfolded sz] b f f3 inner have
    "\<exists>w1. after (Vector_copy_ctor int_type 1 0 full_vector) = Some w1 \<and>
      elements w1 1 = [Obj 1, Obj 2] \<and> Capacity w1 1 = 2 \<and>
      buffer_m (data_m (vectors w1 1)) = Some 2 \<and> buffer_m (data_m (vectors w1 0)) = Some 0 \<and>
      undisturbed int_type 1 0
        [(True, OpPushBack (MoveOf (Some 1, 0))), (False, OpErase 0), (True, OpReserve 8),
         (True, OpAssign 0 (Make 5))] w1 \<and>
      foreign w1 0 (OpPushBack (MoveOf (Some 1, 0))) \<and> op_fits int_type (OpReserve 8) \<and>
      (\<exists>w2. after (run_op int_type 1 (OpPushBack (MoveOf (Some 1, 0))) w1) = Some w2 \<and>
         elements w2 1 = [Obj 1, Obj 2, Obj 99] \<and> elements w2 0 = [Obj 1, Obj 2] \<and>
         foreign w2 1 (OpErase 0) \<and>
         (\<exists>w3. after (run_op int_type 0 (OpErase 0) w2) = Some w3 \<and>
            elements w3 0 = [Obj 2] \<and> elements w3 1 = [Obj 1, Obj 2, Obj 99]))"
    by blast
  with 1 2 3 4 5 show ?thesis by blast
qed

end
